theory Spec2Isabelle
  imports Main
begin

section \<open>Exceptions, interface messages and the effect log\<close>

text \<open>
  The program (\<^verbatim>\<open>src/main.py\<close>) is a Streamlit script over the YouTube Data API.
  Its functions talk to the user through \<^verbatim>\<open>st.write\<close>, \<^verbatim>\<open>st.warning\<close>,
  \<^verbatim>\<open>st.error\<close>, ... and to the network through \<^verbatim>\<open>.execute()\<close>.  Both effects
  are modelled by an explicit log that every function takes and returns.

  Exceptions are values.  The handlers of the source tell \<^verbatim>\<open>HttpError\<close> from every
  other exception, and \<^verbatim>\<open>ValueError\<close> from the rest around \<^verbatim>\<open>isoparse\<close>.
\<close>

datatype exn = HttpError string | ValueError string | KeyError string | OtherError string

fun is_HttpError :: "exn \<Rightarrow> bool" where
  "is_HttpError (HttpError _) = True"
| "is_HttpError _ = False"

text \<open>
  The messages are kept symbolic (the source's texts are Japanese); each constructor
  names the Streamlit call and carries the values the f-string interpolates.
\<close>

datatype ui_msg =
    Warning_enter_api_key                           \<comment> \<open>line 67, \<^verbatim>\<open>st.warning\<close>\<close>
  | Error_key_check exn                             \<comment> \<open>line 75, \<^verbatim>\<open>st.error\<close>\<close>
  | Error_key_hint                                  \<comment> \<open>line 76\<close>
  | Error_build_unexpected exn                      \<comment> \<open>line 79\<close>
  | Write_searching                                 \<comment> \<open>line 89, \<^verbatim>\<open>st.write\<close>\<close>
  | Write_found nat                                 \<comment> \<open>line 115\<close>
  | Error_search_api exn                            \<comment> \<open>line 119\<close>
  | Error_search_hint                               \<comment> \<open>line 120\<close>
  | Error_search_unexpected exn                     \<comment> \<open>line 123\<close>
  | Write_fetching nat nat nat                      \<comment> \<open>line 132\<close>
  | Warning_date_parse string "string option"       \<comment> \<open>line 150: raw string, channel id\<close>
  | Error_channels_api nat nat exn                  \<comment> \<open>line 170\<close>
  | Error_channels_hint                             \<comment> \<open>line 171\<close>
  | Error_channels_unexpected exn                   \<comment> \<open>line 175\<close>
  | Warning_no_channels                             \<comment> \<open>line 191\<close>
  | Warning_details_failed                          \<comment> \<open>line 197\<close>
  | Success_done nat                                \<comment> \<open>line 209\<close>
  | Info_none_new                                   \<comment> \<open>line 256\<close>
  | Info_press_start                                \<comment> \<open>line 258\<close>
  | Info_enter_key                                  \<comment> \<open>line 261\<close>

fun is_warning :: "ui_msg \<Rightarrow> bool" where
  "is_warning Warning_enter_api_key = True"
| "is_warning (Warning_date_parse _ _) = True"
| "is_warning Warning_no_channels = True"
| "is_warning Warning_details_failed = True"
| "is_warning _ = False"

section \<open>Python built-ins the source relies on\<close>

subsection \<open>\<^verbatim>\<open>int(s)\<close> on a string\<close>

text \<open>
  \<^verbatim>\<open>int\<close> of a \<^verbatim>\<open>str\<close>, base ten: surrounding white space is stripped, one sign
  is allowed, then decimal digits, with single underscores between digits.  Anything
  else raises \<^verbatim>\<open>ValueError\<close>.  Strings are byte strings here, so only the ASCII digits
  are covered, and the white space is what the interpreter strips from an ASCII string:
  the bytes 9 to 13 and the blank.  The interpreter's configurable limit on the number of
  digits is not modelled.
\<close>

definition is_space :: "char \<Rightarrow> bool" where
  "is_space c = ((of_char c :: nat) \<in> {9, 10, 11, 12, 13, 32})"

definition is_digit :: "char \<Rightarrow> bool" where
  "is_digit c = (48 \<le> (of_char c :: nat) \<and> (of_char c :: nat) \<le> 57)"

definition digit_val :: "char \<Rightarrow> nat" where
  "digit_val c = of_char c - 48"

definition strip :: "string \<Rightarrow> string" where
  "strip s = rev (dropWhile is_space (rev (dropWhile is_space s)))"

text \<open>
  \<open>digits prev acc s\<close> reads the digits of \<open>s\<close>; \<open>prev\<close> says that the character
  before was a digit, which is when an underscore or the end of the string is allowed.
\<close>

fun digits :: "bool \<Rightarrow> nat \<Rightarrow> string \<Rightarrow> nat option" where
  "digits prev acc [] = (if prev then Some acc else None)"
| "digits prev acc (c # cs) =
     (if is_digit c then digits True (10 * acc + digit_val c) cs
      else if c = CHR ''_'' \<and> prev then digits False acc cs
      else None)"

definition py_int :: "string \<Rightarrow> exn + int" where
  "py_int s =
     (case strip s of
        [] \<Rightarrow> Inl (ValueError s)
      | c # cs \<Rightarrow>
          (if c = CHR ''-'' then
             (case digits False 0 cs of None \<Rightarrow> Inl (ValueError s) | Some n \<Rightarrow> Inr (- int n))
           else if c = CHR ''+'' then
             (case digits False 0 cs of None \<Rightarrow> Inl (ValueError s) | Some n \<Rightarrow> Inr (int n))
           else
             (case digits False 0 (c # cs) of None \<Rightarrow> Inl (ValueError s) | Some n \<Rightarrow> Inr (int n))))"

subsection \<open>Truthiness of an optional string\<close>

text \<open>
  \<^verbatim>\<open>d.get(k)\<close> is \<^verbatim>\<open>None\<close> for a missing key; \<^verbatim>\<open>if x:\<close> is false for
  \<^verbatim>\<open>None\<close> and for the empty string.
\<close>

definition truthy :: "string option \<Rightarrow> bool" where
  "truthy x = (case x of None \<Rightarrow> False | Some s \<Rightarrow> s \<noteq> [])"

subsection \<open>\<^verbatim>\<open>sep.join(xs)\<close>\<close>

fun join :: "string \<Rightarrow> string list \<Rightarrow> string" where
  "join sep [] = []"
| "join sep [x] = x"
| "join sep (x # y # ys) = x @ sep @ join sep (y # ys)"

section \<open>Constants\<close>

definition MAX_VIDEO_RESULTS_PER_PAGE :: nat where
  "MAX_VIDEO_RESULTS_PER_PAGE = 50"

definition MAX_CHANNELS_TO_FETCH_PER_CALL :: nat where
  "MAX_CHANNELS_TO_FETCH_PER_CALL = 50"

section \<open>The remote service\<close>

text \<open>
  A search item is \<^verbatim>\<open>{'id': {'videoId': ..}, 'snippet': {'channelId': ..}}\<close>; the source
  subscripts both (\<^verbatim>\<open>item['id']['videoId']\<close>), so a missing key raises
  \<^verbatim>\<open>KeyError\<close>.  A search response has \<^verbatim>\<open>items\<close> (read with a default of
  \<^verbatim>\<open>[]\<close>) and \<^verbatim>\<open>nextPageToken\<close> (read with \<^verbatim>\<open>.get\<close>).
\<close>

record search_item =
  videoId :: "string option"
  channelId :: "string option"

record search_response =
  search_items :: "search_item list option"
  nextPageToken :: "string option"

record search_request =
  publishedAfter :: string
  maxResults :: nat
  pageToken :: "string option"

text \<open>
  A channel item has an \<^verbatim>\<open>id\<close>, a \<^verbatim>\<open>snippet\<close> and \<^verbatim>\<open>statistics\<close>; the
  source reads every field with \<^verbatim>\<open>.get\<close>, so each may be missing.  The counts arrive
  as strings.  A key is missing or holds a value of its type; other JSON values (a
  \<^verbatim>\<open>null\<close>, a number where a string belongs) are outside the model.
\<close>

record snippet =
  sn_title :: "string option"
  sn_description :: "string option"
  sn_publishedAt :: "string option"

record statistics =
  subscriberCount :: "string option"
  viewCount :: "string option"
  videoCount :: "string option"
  hiddenSubscriberCount :: "bool option"

record channel_item =
  item_id :: "string option"
  item_snippet :: "snippet option"
  item_statistics :: "statistics option"

record channels_response =
  channels_items :: "channel_item list option"

text \<open>
  The client handle.  \<^verbatim>\<open>.execute()\<close> either raises or returns the decoded response.
  The service has state of its own, so the answer may depend on how many requests of
  that kind the running function has already made (the first argument) as well as on
  the request.
\<close>

record youtube =
  search_execute :: "nat \<Rightarrow> search_request \<Rightarrow> exn + search_response"
  channels_execute :: "nat \<Rightarrow> string \<Rightarrow> exn + channels_response"

datatype api_call = Build_call string | Search_call search_request | Channels_call string

record io =
  msgs :: "ui_msg list"
  calls :: "api_call list"

definition say :: "ui_msg \<Rightarrow> io \<Rightarrow> io" where
  "say m s = s\<lparr>msgs := msgs s @ [m]\<rparr>"

definition call :: "api_call \<Rightarrow> io \<Rightarrow> io" where
  "call c s = s\<lparr>calls := calls s @ [c]\<rparr>"

definition io0 :: io where
  "io0 = \<lparr>msgs = [], calls = []\<rparr>"

section \<open>Channel Detail Fetcher: \<^verbatim>\<open>get_channel_details\<close>\<close>

record channel_record =
  channel_id :: "string option"
  channel_name :: "string option"
  description :: "string option"
  published_at_str :: "string option"
  published_at :: "int option"
  subscriber_count :: int
  view_count :: int
  video_count :: int
  hidden_subscriber_count :: bool

text \<open>\<^verbatim>\<open>item.get('snippet', {})\<close> and \<^verbatim>\<open>item.get('statistics', {})\<close>.\<close>

definition get_snippet :: "channel_item \<Rightarrow> snippet" where
  "get_snippet item =
     (case item_snippet item of
        None \<Rightarrow> \<lparr>sn_title = None, sn_description = None, sn_publishedAt = None\<rparr>
      | Some s \<Rightarrow> s)"

definition get_statistics :: "channel_item \<Rightarrow> statistics" where
  "get_statistics item =
     (case item_statistics item of
        None \<Rightarrow> \<lparr>subscriberCount = None, viewCount = None, videoCount = None,
                  hiddenSubscriberCount = None\<rparr>
      | Some s \<Rightarrow> s)"

text \<open>
  Lines 144 to 152.  \<open>isoparse\<close> is \<^verbatim>\<open>dateutil.parser.isoparse\<close>, a parameter of the
  model: it returns the instant (an integer number of microseconds since the epoch) or
  raises.  It is only called on a truthy string.
\<close>

definition parse_published_at :: "(string \<Rightarrow> exn + int) \<Rightarrow> string option \<Rightarrow> exn + int option" where
  "parse_published_at isoparse pa_str =
     (if truthy pa_str then
        (case isoparse (the pa_str) of Inl e \<Rightarrow> Inl e | Inr t \<Rightarrow> Inr (Some t))
      else Inr None)"

text \<open>Line 156: \<^verbatim>\<open>int(subscriber_count) if subscriber_count else 0\<close>.\<close>

definition subscriber_count_int :: "string option \<Rightarrow> exn + int" where
  "subscriber_count_int sc_str =
     (if truthy sc_str then py_int (the sc_str) else Inr 0)"

text \<open>Lines 165 and 166: \<^verbatim>\<open>int(statistics.get(key, 0))\<close>; \<^verbatim>\<open>int(0)\<close> is \<^verbatim>\<open>0\<close>.\<close>

definition int_or_0 :: "string option \<Rightarrow> exn + int" where
  "int_or_0 x = (case x of None \<Rightarrow> Inr 0 | Some s \<Rightarrow> py_int s)"

text \<open>
  One turn of the loop over the items (lines 139 to 168): the record is appended, or
  the item is skipped with a warning (\<^verbatim>\<open>continue\<close> at line 152), or an exception
  leaves the loop.
\<close>

datatype item_outcome = Appended channel_record | Skipped ui_msg | Raised exn

definition decode_item :: "(string \<Rightarrow> exn + int) \<Rightarrow> channel_item \<Rightarrow> item_outcome" where
  "decode_item isoparse item =
     (let snippet = get_snippet item;
          statistics = get_statistics item;
          pa_str = sn_publishedAt snippet
      in case parse_published_at isoparse pa_str of
           Inl (ValueError m) \<Rightarrow>
             Skipped (Warning_date_parse (the pa_str) (item_id item))
         | Inl e \<Rightarrow> Raised e
         | Inr published_at_dt \<Rightarrow>
             (case subscriber_count_int (subscriberCount statistics) of
                Inl e \<Rightarrow> Raised e
              | Inr sc \<Rightarrow>
                  (case int_or_0 (viewCount statistics) of
                     Inl e \<Rightarrow> Raised e
                   | Inr vc \<Rightarrow>
                       (case int_or_0 (videoCount statistics) of
                          Inl e \<Rightarrow> Raised e
                        | Inr nc \<Rightarrow>
                            Appended
                              \<lparr>channel_id = item_id item,
                               channel_name = sn_title snippet,
                               description = sn_description snippet,
                               published_at_str = pa_str,
                               published_at = published_at_dt,
                               subscriber_count = sc,
                               view_count = vc,
                               video_count = nc,
                               hidden_subscriber_count =
                                 (case hiddenSubscriberCount statistics of
                                    None \<Rightarrow> False | Some b \<Rightarrow> b)\<rparr>))))"

text \<open>The loop over the items of one response.\<close>

fun decode_items ::
  "(string \<Rightarrow> exn + int) \<Rightarrow> channel_item list \<Rightarrow> channel_record list \<times> io
     \<Rightarrow> exn option \<times> channel_record list \<times> io" where
  "decode_items isoparse [] (channel_data, s) = (None, channel_data, s)"
| "decode_items isoparse (item # items) (channel_data, s) =
     (case decode_item isoparse item of
        Appended r \<Rightarrow> decode_items isoparse items (channel_data @ [r], s)
      | Skipped w \<Rightarrow> decode_items isoparse items (channel_data, say w s)
      | Raised e \<Rightarrow> (Some e, channel_data, s))"

text \<open>
  The two handlers of the batch (lines 169 to 176); both end in \<^verbatim>\<open>continue\<close>.
\<close>

definition batch_failed :: "nat \<Rightarrow> nat \<Rightarrow> exn \<Rightarrow> io \<Rightarrow> io" where
  "batch_failed i n e s =
     (if is_HttpError e then say Error_channels_hint (say (Error_channels_api (i + 1) (i + n) e) s)
      else say (Error_channels_unexpected e) s)"

text \<open>
  One turn of the loop over the batches (lines 131 to 176), for the batch that starts
  at index \<open>i\<close>; it is request number \<open>i div 50\<close> of the run.
\<close>

definition fetch_batch ::
  "(string \<Rightarrow> exn + int) \<Rightarrow> youtube \<Rightarrow> string list \<Rightarrow> channel_record list \<times> io \<Rightarrow> nat
     \<Rightarrow> channel_record list \<times> io" where
  "fetch_batch isoparse yt channel_ids st i =
     (let channel_data = fst st;
          batch_ids = take MAX_CHANNELS_TO_FETCH_PER_CALL (drop i channel_ids);
          s1 = say (Write_fetching (i + 1)
                      (min (i + length batch_ids) (length channel_ids)) (length channel_ids))
                   (snd st);
          ids = join '','' batch_ids;
          s2 = call (Channels_call ids) s1
      in case channels_execute yt (i div MAX_CHANNELS_TO_FETCH_PER_CALL) ids of
           Inl e \<Rightarrow> (channel_data, batch_failed i (length batch_ids) e s2)
         | Inr channel_response \<Rightarrow>
             (case decode_items isoparse
                     (case channels_items channel_response of None \<Rightarrow> [] | Some its \<Rightarrow> its)
                     (channel_data, s2) of
                (None, channel_data', s3) \<Rightarrow> (channel_data', s3)
              | (Some e, channel_data', s3) \<Rightarrow>
                  (channel_data', batch_failed i (length batch_ids) e s3)))"

text \<open>\<^verbatim>\<open>range(0, n, step)\<close>.\<close>

definition range_step :: "nat \<Rightarrow> nat \<Rightarrow> nat list" where
  "range_step n step = map (\<lambda>k. k * step) [0 ..< (n + step - 1) div step]"

definition get_channel_details ::
  "(string \<Rightarrow> exn + int) \<Rightarrow> youtube \<Rightarrow> string list \<Rightarrow> io \<Rightarrow> channel_record list \<times> io" where
  "get_channel_details isoparse yt channel_ids s =
     foldl (fetch_batch isoparse yt channel_ids) ([], s)
       (range_step (length channel_ids) MAX_CHANNELS_TO_FETCH_PER_CALL)"

section \<open>Popular-Video Finder: \<^verbatim>\<open>search_popular_videos\<close>\<close>

text \<open>
  \<^verbatim>\<open>channel_ids = set()\<close>.  A Python set has no duplicates and no specified iteration
  order; it is modelled as a duplicate-free list in insertion order, and
  \<^verbatim>\<open>list(channel_ids)\<close> is that list.  The theorems below only speak about membership,
  multiplicity and size, never about the order.
\<close>

definition set_add :: "'a \<Rightarrow> 'a list \<Rightarrow> 'a list" where
  "set_add x xs = (if x \<in> set xs then xs else xs @ [x])"

text \<open>
  The loop over the items of one page (lines 104 to 109).  The state is
  \<open>(video_ids, channel_ids, results_fetched)\<close>.
\<close>

type_synonym scan_state = "string list \<times> string list \<times> nat"

fun scan_items :: "nat \<Rightarrow> search_item list \<Rightarrow> scan_state \<Rightarrow> exn + scan_state" where
  "scan_items max_results [] st = Inr st"
| "scan_items max_results (item # items) st =
     (case st of (video_ids, channel_ids, results_fetched) \<Rightarrow>
        (case videoId item of
           None \<Rightarrow> Inl (KeyError ''videoId'')
         | Some v \<Rightarrow>
             (case channelId item of
                None \<Rightarrow> Inl (KeyError ''channelId'')
              | Some c \<Rightarrow>
                  (if results_fetched + 1 \<ge> max_results
                   then Inr (video_ids @ [v], set_add c channel_ids, results_fetched + 1)
                   else scan_items max_results items
                          (video_ids @ [v], set_add c channel_ids, results_fetched + 1)))))"

text \<open>\<^verbatim>\<open>search_response.get('items', [])\<close>.\<close>

definition get_items :: "search_response \<Rightarrow> search_item list" where
  "get_items r = (case search_items r of None \<Rightarrow> [] | Some its \<Rightarrow> its)"

text \<open>
  One turn of the \<^verbatim>\<open>while\<close> loop (lines 93 to 113), entered with
  \<^verbatim>\<open>results_fetched < max_results\<close>.  The state is
  \<open>(video_ids, channel_ids, next_page_token, results_fetched)\<close>; \<open>k\<close> counts the
  requests made before this one.  The turn ends the loop, with an exception or at a
  \<^verbatim>\<open>break\<close>, or goes on to the next test of the loop's condition.
\<close>

type_synonym search_state = "string list \<times> string list \<times> string option \<times> nat"

datatype turn = Leave "exn + search_state" io | Again search_state io

definition search_page ::
  "youtube \<Rightarrow> string \<Rightarrow> nat \<Rightarrow> nat \<Rightarrow> search_state \<Rightarrow> io \<Rightarrow> turn" where
  "search_page yt published_after_iso max_results k st s =
     (case st of (video_ids, channel_ids, next_page_token, results_fetched) \<Rightarrow>
        (let num_to_fetch = min MAX_VIDEO_RESULTS_PER_PAGE (max_results - results_fetched);
             req = \<lparr>publishedAfter = published_after_iso, maxResults = num_to_fetch,
                    pageToken = next_page_token\<rparr>;
             s1 = call (Search_call req) s
         in case search_execute yt k req of
              Inl e \<Rightarrow> Leave (Inl e) s1
            | Inr search_response \<Rightarrow>
                (case scan_items max_results (get_items search_response)
                        (video_ids, channel_ids, results_fetched) of
                   Inl e \<Rightarrow> Leave (Inl e) s1
                 | Inr (video_ids', channel_ids', results_fetched') \<Rightarrow>
                     (if \<not> truthy (nextPageToken search_response)
                           \<or> results_fetched' \<ge> max_results
                      then Leave (Inr (video_ids', channel_ids',
                                       nextPageToken search_response, results_fetched')) s1
                      else Again (video_ids', channel_ids',
                                  nextPageToken search_response, results_fetched') s1))))"

text \<open>
  The \<^verbatim>\<open>while\<close> loop (line 92).  The service may answer every request with an empty
  page and a fresh token, and then the loop never ends; so the model takes fuel, one
  unit for each turn, and \<open>None\<close> says that the fuel ran out.  The result is the
  exception that left the loop, or the final state.  \<^verbatim>\<open>max_results\<close> is a natural
  number (the slider gives 50 to 500); a negative value would leave the loop at once, as
  0 does.
\<close>

definition results_fetched_of :: "search_state \<Rightarrow> nat" where
  "results_fetched_of st = snd (snd (snd st))"

fun search_loop ::
  "nat \<Rightarrow> youtube \<Rightarrow> string \<Rightarrow> nat \<Rightarrow> nat \<Rightarrow> search_state \<Rightarrow> io
     \<Rightarrow> ((exn + search_state) \<times> io) option" where
  "search_loop 0 yt published_after_iso max_results k st s =
     (if results_fetched_of st < max_results then None else Some (Inr st, s))"
| "search_loop (Suc fuel) yt published_after_iso max_results k st s =
     (if results_fetched_of st < max_results then
        (case search_page yt published_after_iso max_results k st s of
           Leave r s1 \<Rightarrow> Some (r, s1)
         | Again st1 s1 \<Rightarrow> search_loop fuel yt published_after_iso max_results (Suc k) st1 s1)
      else Some (Inr st, s))"

text \<open>The two handlers of the search (lines 118 to 124); both return \<^verbatim>\<open>[]\<close>.\<close>

definition search_failed :: "exn \<Rightarrow> io \<Rightarrow> io" where
  "search_failed e s =
     (if is_HttpError e then say Error_search_hint (say (Error_search_api e) s)
      else say (Error_search_unexpected e) s)"

definition search_popular_videos ::
  "nat \<Rightarrow> youtube \<Rightarrow> string \<Rightarrow> nat \<Rightarrow> io \<Rightarrow> (string list \<times> io) option" where
  "search_popular_videos fuel yt published_after_iso max_results s =
     (case search_loop fuel yt published_after_iso max_results 0 ([], [], None, 0)
             (say Write_searching s) of
        None \<Rightarrow> None
      | Some (Inl e, s1) \<Rightarrow> Some ([], search_failed e s1)
      | Some (Inr (video_ids, channel_ids, next_page_token, results_fetched), s1) \<Rightarrow>
          Some (channel_ids, say (Write_found (length channel_ids)) s1))"

section \<open>Filter and rank (lines 200 to 207)\<close>

text \<open>
  A row of \<^verbatim>\<open>df_filtered\<close>: the record and its \<^verbatim>\<open>is_new\<close> column.  The cutoff
  \<^verbatim>\<open>one_month_ago\<close> and the creation instants are integers (microseconds since the
  epoch): both are timezone-aware datetimes, compared as instants.
\<close>

record row =
  rec :: channel_record
  is_new :: bool

text \<open>\<^verbatim>\<open>df.dropna(subset=['published_at'])\<close>\<close>

definition dropna_published_at :: "channel_record list \<Rightarrow> channel_record list" where
  "dropna_published_at df = filter (\<lambda>r. published_at r \<noteq> None) df"

text \<open>\<^verbatim>\<open>df_filtered['is_new'] = df_filtered['published_at'] >= one_month_ago\<close>\<close>

definition add_is_new :: "int \<Rightarrow> channel_record list \<Rightarrow> row list" where
  "add_is_new cutoff df =
     map (\<lambda>r. \<lparr>rec = r,
                 is_new = (case published_at r of None \<Rightarrow> False | Some t \<Rightarrow> cutoff \<le> t)\<rparr>) df"

text \<open>\<^verbatim>\<open>new_channels_df = df_filtered[df_filtered['is_new']]\<close>\<close>

definition new_channels_df :: "int \<Rightarrow> channel_record list \<Rightarrow> row list" where
  "new_channels_df cutoff df = filter is_new (add_is_new cutoff (dropna_published_at df))"

section \<open>Presentation (lines 211 to 225)\<close>

subsection \<open>\<^verbatim>\<open>f"{n:,}"\<close>\<close>

text \<open>
  The decimal digits of a natural number, and Python's \<^verbatim>\<open>,\<close> format: a comma before
  every group of three digits counted from the right, after the sign.
\<close>

fun nat_digits :: "nat \<Rightarrow> string" where
  "nat_digits n =
     (if n < 10 then [char_of (48 + n)] else nat_digits (n div 10) @ [char_of (48 + n mod 10)])"

fun group3 :: "string \<Rightarrow> string" where
  "group3 ds =
     (if length ds \<le> 3 then ds
      else group3 (take (length ds - 3) ds) @ '','' @ drop (length ds - 3) ds)"

declare nat_digits.simps [simp del]

declare group3.simps [simp del]

definition format_comma :: "int \<Rightarrow> string" where
  "format_comma n =
     (if n < 0 then ''-'' @ group3 (nat_digits (nat (- n))) else group3 (nat_digits (nat n)))"

text \<open>
  The marker shown for a hidden subscriber count: three CJK characters, here as their
  nine UTF-8 bytes.
\<close>

definition hidden_marker :: string where
  "hidden_marker =
     [CHR 0xE9, CHR 0x9D, CHR 0x9E, CHR 0xE5, CHR 0x85, CHR 0xAC, CHR 0xE9, CHR 0x96, CHR 0x8B]"

text \<open>
  The display columns added at lines 213 to 221.  \<open>strftime\<close> is the date formatting
  of line 215, a parameter; the column has no text where the timestamp is missing, which
  no row of \<^verbatim>\<open>new_channels_df\<close> is.  \<^verbatim>\<open>f"{x}"\<close> of \<^verbatim>\<open>None\<close> is
  \<^verbatim>\<open>None\<close>.
\<close>

record display_row =
  source_row :: row
  channel_link :: string
  opened_text :: "string option"
  subscribers_text :: string
  total_views_text :: string
  videos_text :: string

definition subscribers_cell :: "channel_record \<Rightarrow> string" where
  "subscribers_cell r =
     (if \<not> hidden_subscriber_count r then format_comma (subscriber_count r) else hidden_marker)"

definition add_display_columns :: "(int \<Rightarrow> string) \<Rightarrow> row \<Rightarrow> display_row" where
  "add_display_columns strftime x =
     \<lparr>source_row = x,
      channel_link = ''https://www.youtube.com/channel/''
         @ (case channel_id (rec x) of None \<Rightarrow> ''None'' | Some i \<Rightarrow> i),
      opened_text = map_option strftime (published_at (rec x)),
      subscribers_text = subscribers_cell (rec x),
      total_views_text = format_comma (view_count (rec x)),
      videos_text = format_comma (video_count (rec x))\<rparr>"

section \<open>The script (lines 181 to 261)\<close>

text \<open>
  What the script takes from outside: the widgets' values, the clock, and the library
  functions whose code is not the repository's.  \<open>lib_sort_values\<close> is
  \<^verbatim>\<open>DataFrame.sort_values(by='subscriber_count', ascending=False)\<close> with the library's
  default sorting kind.
\<close>

record library =
  lib_build :: "string \<Rightarrow> exn + youtube"
  lib_isoparse :: "string \<Rightarrow> exn + int"
  lib_isoformat :: "int \<Rightarrow> string"
  lib_strftime :: "int \<Rightarrow> string"
  lib_sort_values :: "display_row list \<Rightarrow> display_row list"

record widgets =
  api_key :: string
  start_search :: bool
  max_videos :: nat
  new_channel_days :: nat
  today :: int

definition one_month_ago :: "widgets \<Rightarrow> int" where
  "one_month_ago w = today w - int (new_channel_days w) * 86400000000"

text \<open>Lines 64 to 80.\<close>

definition get_youtube_service ::
  "(string \<Rightarrow> exn + youtube) \<Rightarrow> string \<Rightarrow> io \<Rightarrow> youtube option \<times> io" where
  "get_youtube_service bld api_key_input s =
     (if api_key_input = [] then (None, say Warning_enter_api_key s)
      else
        (case bld api_key_input of
           Inr yt \<Rightarrow> (Some yt, call (Build_call api_key_input) s)
         | Inl e \<Rightarrow>
             (None,
              (if is_HttpError e
               then say Error_key_hint (say (Error_key_check e) (call (Build_call api_key_input) s))
               else say (Error_build_unexpected e) (call (Build_call api_key_input) s)))))"

text \<open>
  The main part.  The result is the table handed to \<^verbatim>\<open>st.dataframe\<close> (and to the CSV
  download), if one is shown, and the log; \<open>None\<close> when the search loop does not end
  within the fuel.
\<close>

definition main :: "nat \<Rightarrow> library \<Rightarrow> widgets \<Rightarrow> io \<Rightarrow> (display_row list option \<times> io) option" where
  "main fuel lib w s =
     (if api_key w \<noteq> [] then
        (case get_youtube_service (lib_build lib) (api_key w) s of
           (None, s1) \<Rightarrow> Some (None, s1)
         | (Some youtube_service, s1) \<Rightarrow>
             (if start_search w then
                (case search_popular_videos fuel youtube_service
                        (lib_isoformat lib (one_month_ago w)) (max_videos w) s1 of
                   None \<Rightarrow> None
                 | Some (channel_ids_to_check, s2) \<Rightarrow>
                     (if channel_ids_to_check = [] then Some (None, say Warning_no_channels s2)
                      else
                        (case get_channel_details (lib_isoparse lib) youtube_service
                                channel_ids_to_check s2 of
                           (all_channel_details, s3) \<Rightarrow>
                             (if all_channel_details = []
                              then Some (None, say Warning_details_failed s3)
                              else
                                (let new = new_channels_df (one_month_ago w) all_channel_details;
                                     s4 = say (Success_done (length new)) s3
                                 in if new \<noteq> []
                                    then Some (Some (lib_sort_values lib
                                                 (map (add_display_columns (lib_strftime lib)) new)), s4)
                                    else Some (None, say Info_none_new s4))))))
              else Some (None, say Info_press_start s1)))
      else Some (None, say Info_enter_key s))"

section \<open>What the fetcher returns, batch by batch\<close>

text \<open>
  These definitions describe the result of \<open>get_channel_details\<close> without its loops;
  the theorems below prove that the loops compute them.  \<open>outcomes\<close> are the outcomes of
  the items of a response up to, and without, the first one whose decoding raises.
\<close>

fun is_Raised :: "item_outcome \<Rightarrow> bool" where
  "is_Raised (Raised _) = True"
| "is_Raised _ = False"

definition outcomes :: "(string \<Rightarrow> exn + int) \<Rightarrow> channel_item list \<Rightarrow> item_outcome list" where
  "outcomes isoparse items = takeWhile (\<lambda>x. \<not> is_Raised x) (map (decode_item isoparse) items)"

definition kept_records :: "(string \<Rightarrow> exn + int) \<Rightarrow> channel_item list \<Rightarrow> channel_record list" where
  "kept_records isoparse items =
     concat (map (\<lambda>x. case x of Appended r \<Rightarrow> [r] | _ \<Rightarrow> []) (outcomes isoparse items))"

definition skip_warnings :: "(string \<Rightarrow> exn + int) \<Rightarrow> channel_item list \<Rightarrow> ui_msg list" where
  "skip_warnings isoparse items =
     concat (map (\<lambda>x. case x of Skipped w \<Rightarrow> [w] | _ \<Rightarrow> []) (outcomes isoparse items))"

definition first_raise :: "(string \<Rightarrow> exn + int) \<Rightarrow> channel_item list \<Rightarrow> exn option" where
  "first_raise isoparse items =
     (case dropWhile (\<lambda>x. \<not> is_Raised x) (map (decode_item isoparse) items) of
        Raised e # _ \<Rightarrow> Some e
      | _ \<Rightarrow> None)"

text \<open>The batch that starts at index \<open>i\<close>: its ids, the answer to its request, the
  items of the answer, the exception that ended it (if any), the records it leaves in
  \<^verbatim>\<open>channel_data\<close> and the messages it shows.\<close>

definition batch_ids_at :: "string list \<Rightarrow> nat \<Rightarrow> string list" where
  "batch_ids_at channel_ids i = take MAX_CHANNELS_TO_FETCH_PER_CALL (drop i channel_ids)"

definition batch_response :: "youtube \<Rightarrow> string list \<Rightarrow> nat \<Rightarrow> exn + channels_response" where
  "batch_response yt channel_ids i =
     channels_execute yt (i div MAX_CHANNELS_TO_FETCH_PER_CALL)
       (join '','' (batch_ids_at channel_ids i))"

definition batch_items :: "youtube \<Rightarrow> string list \<Rightarrow> nat \<Rightarrow> channel_item list" where
  "batch_items yt channel_ids i =
     (case batch_response yt channel_ids i of
        Inl e \<Rightarrow> []
      | Inr r \<Rightarrow> (case channels_items r of None \<Rightarrow> [] | Some its \<Rightarrow> its))"

definition batch_error ::
  "(string \<Rightarrow> exn + int) \<Rightarrow> youtube \<Rightarrow> string list \<Rightarrow> nat \<Rightarrow> exn option" where
  "batch_error isoparse yt channel_ids i =
     (case batch_response yt channel_ids i of
        Inl e \<Rightarrow> Some e
      | Inr r \<Rightarrow> first_raise isoparse (batch_items yt channel_ids i))"

definition batch_records ::
  "(string \<Rightarrow> exn + int) \<Rightarrow> youtube \<Rightarrow> string list \<Rightarrow> nat \<Rightarrow> channel_record list" where
  "batch_records isoparse yt channel_ids i = kept_records isoparse (batch_items yt channel_ids i)"

definition batch_msgs ::
  "(string \<Rightarrow> exn + int) \<Rightarrow> youtube \<Rightarrow> string list \<Rightarrow> nat \<Rightarrow> ui_msg list" where
  "batch_msgs isoparse yt channel_ids i =
     Write_fetching (i + 1)
        (min (i + length (batch_ids_at channel_ids i)) (length channel_ids)) (length channel_ids)
     # skip_warnings isoparse (batch_items yt channel_ids i)
     @ (case batch_error isoparse yt channel_ids i of
          None \<Rightarrow> []
        | Some e \<Rightarrow>
            if is_HttpError e
            then [Error_channels_api (i + 1) (i + length (batch_ids_at channel_ids i)) e,
                  Error_channels_hint]
            else [Error_channels_unexpected e])"

section \<open>What the Finder returns, page by page\<close>

text \<open>
  These definitions describe a run of \<open>search_popular_videos\<close> from outside: the answers
  to the requests it made (\<open>pages_from\<close>), the items of an answer (none when the request
  raised), the items the loop went through (\<open>scanned_items\<close>: the first \<^verbatim>\<open>max_results\<close>
  items of the answers, in order), and the set that adding a list of ids one by one gives
  (\<open>add_all\<close>).  A well-keyed item has both keys the loop subscripts.
\<close>

definition well_keyed :: "search_item \<Rightarrow> bool" where
  "well_keyed item = (videoId item \<noteq> None \<and> channelId item \<noteq> None)"

definition video_of :: "search_item \<Rightarrow> string" where
  "video_of item = the (videoId item)"

definition channel_of :: "search_item \<Rightarrow> string" where
  "channel_of item = the (channelId item)"

definition page_items :: "exn + search_response \<Rightarrow> search_item list" where
  "page_items p = (case p of Inl e \<Rightarrow> [] | Inr r \<Rightarrow> get_items r)"

definition page_token :: "exn + search_response \<Rightarrow> string option" where
  "page_token p = (case p of Inl e \<Rightarrow> None | Inr r \<Rightarrow> nextPageToken r)"

fun pages_from :: "youtube \<Rightarrow> nat \<Rightarrow> search_request list \<Rightarrow> (exn + search_response) list" where
  "pages_from yt k [] = []"
| "pages_from yt k (r # rs) = search_execute yt k r # pages_from yt (Suc k) rs"

definition scanned_items :: "nat \<Rightarrow> (exn + search_response) list \<Rightarrow> search_item list" where
  "scanned_items max_results pages = take max_results (concat (map page_items pages))"

definition add_all :: "'a list \<Rightarrow> 'a list \<Rightarrow> 'a list" where
  "add_all xs s = foldl (\<lambda>s x. set_add x s) s xs"

text \<open>
  The requests that the loop sends when it goes on after each of the pages \<open>ps\<close>,
  starting with \<open>n\<close> results fetched and the token \<open>tok\<close>.
\<close>

fun expected_requests ::
  "string \<Rightarrow> nat \<Rightarrow> nat \<Rightarrow> string option \<Rightarrow> (exn + search_response) list \<Rightarrow> search_request list" where
  "expected_requests pa max_results n tok [] = []"
| "expected_requests pa max_results n tok (p # ps) =
     \<lparr>publishedAfter = pa, maxResults = min MAX_VIDEO_RESULTS_PER_PAGE (max_results - n),
      pageToken = tok\<rparr>
     # expected_requests pa max_results (n + length (page_items p)) (page_token p) ps"

text \<open>
  How the result of the loop relates to the pages it received: either the final state
  holds what scanning the first \<^verbatim>\<open>max_results - n\<close> items gives, or an exception left
  the loop, raised by the last request or by an item without a key.
\<close>

definition loop_result ::
  "nat \<Rightarrow> search_state \<Rightarrow> (exn + search_response) list \<Rightarrow> exn + search_state \<Rightarrow> bool" where
  "loop_result max_results st pages res =
     (case st of (vs, cs, tok, n) \<Rightarrow>
        (let sc = take (max_results - n) (concat (map page_items pages)) in
           case res of
             Inr st' \<Rightarrow>
               (\<forall>p \<in> set pages. \<not> isl p) \<and> (\<forall>it \<in> set sc. well_keyed it) \<and>
               fst st' = vs @ map video_of sc \<and>
               fst (snd st') = add_all (map channel_of sc) cs \<and>
               results_fetched_of st' = n + length sc
           | Inl e \<Rightarrow>
               pages \<noteq> [] \<and> (last pages = Inl e \<or> (\<exists>it \<in> set sc. \<not> well_keyed it))))"

section \<open>Sample inputs\<close>

text \<open>
  Concrete inputs for the examples.  \<open>sample_isoparse\<close> stands for the date parser
  there: it knows one timestamp, 2023-11-14 22:13:20 UTC (1700000000 seconds after the
  epoch), and raises \<^verbatim>\<open>ValueError\<close> on every other string; the examples give it
  no other ISO 8601 string.  The clock of the examples shows that same instant.
\<close>

definition sample_isoparse :: "string \<Rightarrow> exn + int" where
  "sample_isoparse s =
     (if s = ''2023-11-14T22:13:20Z'' then Inr 1700000000000000 else Inl (ValueError s))"

definition days_ago :: "int \<Rightarrow> int" where
  "days_ago n = 1700000000000000 - n * 86400000000"

definition hidden_with_count :: channel_item where
  "hidden_with_count =
     \<lparr>item_id = Some ''UC1'',
      item_snippet = Some \<lparr>sn_title = Some ''one'', sn_description = None,
                            sn_publishedAt = Some ''2023-11-14T22:13:20Z''\<rparr>,
      item_statistics = Some \<lparr>subscriberCount = Some ''123'', viewCount = Some ''5000'',
                               videoCount = Some ''7'', hiddenSubscriberCount = Some True\<rparr>\<rparr>"

definition hidden_without_count :: channel_item where
  "hidden_without_count =
     \<lparr>item_id = Some ''UC2'',
      item_snippet = Some \<lparr>sn_title = Some ''two'', sn_description = None,
                            sn_publishedAt = Some ''2023-11-14T22:13:20Z''\<rparr>,
      item_statistics = Some \<lparr>subscriberCount = None, viewCount = Some ''5000'',
                               videoCount = Some ''7'', hiddenSubscriberCount = Some True\<rparr>\<rparr>"

definition record_of_hidden_with_count :: channel_record where
  "record_of_hidden_with_count =
     \<lparr>channel_id = Some ''UC1'', channel_name = Some ''one'', description = None,
      published_at_str = Some ''2023-11-14T22:13:20Z'',
      published_at = Some 1700000000000000,
      subscriber_count = 123, view_count = 5000, video_count = 7,
      hidden_subscriber_count = True\<rparr>"

definition record_of_hidden_without_count :: channel_record where
  "record_of_hidden_without_count =
     \<lparr>channel_id = Some ''UC2'', channel_name = Some ''two'', description = None,
      published_at_str = Some ''2023-11-14T22:13:20Z'',
      published_at = Some 1700000000000000,
      subscriber_count = 0, view_count = 5000, video_count = 7,
      hidden_subscriber_count = True\<rparr>"

definition bad_view_count :: channel_item where
  "bad_view_count =
     \<lparr>item_id = Some ''UC3'',
      item_snippet = Some \<lparr>sn_title = Some ''three'', sn_description = None,
                            sn_publishedAt = Some ''2023-11-14T22:13:20Z''\<rparr>,
      item_statistics = Some \<lparr>subscriberCount = Some ''10'', viewCount = Some ''x'',
                               videoCount = Some ''7'', hiddenSubscriberCount = None\<rparr>\<rparr>"

definition half_bad_service :: youtube where
  "half_bad_service =
     \<lparr>search_execute = (\<lambda>k r. Inl (OtherError ''unused'')),
      channels_execute =
        (\<lambda>k ids. Inr \<lparr>channels_items = Some [hidden_with_count, bad_view_count]\<rparr>)\<rparr>"

definition flaky_service :: youtube where
  "flaky_service =
     \<lparr>search_execute = (\<lambda>k r. Inl (OtherError ''unused'')),
      channels_execute =
        (\<lambda>k ids. if k = 0 then Inl (HttpError ''quotaExceeded'')
                   else Inr \<lparr>channels_items = Some [hidden_without_count]\<rparr>)\<rparr>"

definition fifty_one_ids :: "string list" where
  "fifty_one_ids = replicate 50 ''UC0'' @ [''UC2'']"

definition no_timestamp :: channel_item where
  "no_timestamp =
     \<lparr>item_id = Some ''UC4'',
      item_snippet = Some \<lparr>sn_title = Some ''four'', sn_description = None,
                            sn_publishedAt = None\<rparr>,
      item_statistics = Some \<lparr>subscriberCount = Some ''10'', viewCount = Some ''20'',
                               videoCount = Some ''3'', hiddenSubscriberCount = None\<rparr>\<rparr>"

definition record_of_no_timestamp :: channel_record where
  "record_of_no_timestamp =
     \<lparr>channel_id = Some ''UC4'', channel_name = Some ''four'', description = None,
      published_at_str = None, published_at = None,
      subscriber_count = 10, view_count = 20, video_count = 3,
      hidden_subscriber_count = False\<rparr>"

definition no_timestamp_bad_view_count :: channel_item where
  "no_timestamp_bad_view_count =
     \<lparr>item_id = Some ''UC6'',
      item_snippet = Some \<lparr>sn_title = Some ''six'', sn_description = None,
                            sn_publishedAt = None\<rparr>,
      item_statistics = Some \<lparr>subscriberCount = Some ''10'', viewCount = Some ''x'',
                               videoCount = Some ''3'', hiddenSubscriberCount = None\<rparr>\<rparr>"

definition no_timestamp_service :: youtube where
  "no_timestamp_service =
     \<lparr>search_execute = (\<lambda>k r. Inl (OtherError ''unused'')),
      channels_execute = (\<lambda>k ids. Inr \<lparr>channels_items = Some [no_timestamp]\<rparr>)\<rparr>"

definition bad_count_service :: youtube where
  "bad_count_service =
     \<lparr>search_execute = (\<lambda>k r. Inl (OtherError ''unused'')),
      channels_execute =
        (\<lambda>k ids. Inr \<lparr>channels_items = Some [no_timestamp_bad_view_count, no_timestamp]\<rparr>)\<rparr>"

definition unparsable_timestamp :: channel_item where
  "unparsable_timestamp =
     \<lparr>item_id = Some ''UC5'',
      item_snippet = Some \<lparr>sn_title = Some ''five'', sn_description = None,
                            sn_publishedAt = Some ''yesterday''\<rparr>,
      item_statistics = None\<rparr>"

definition sample_record :: "string \<Rightarrow> int option \<Rightarrow> int \<Rightarrow> channel_record" where
  "sample_record i t n =
     \<lparr>channel_id = Some i, channel_name = Some i, description = None,
      published_at_str = None, published_at = t,
      subscriber_count = n, view_count = 0, video_count = 0,
      hidden_subscriber_count = False\<rparr>"

definition sample_df :: "channel_record list" where
  "sample_df =
     [sample_record ''A'' (Some (days_ago 10)) 1000, sample_record ''B'' (Some (days_ago 60)) 5000,
      sample_record ''C'' (Some (days_ago 5)) 50, sample_record ''D'' None 7]"

definition sample_row :: "bool \<Rightarrow> int \<Rightarrow> row" where
  "sample_row h n =
     \<lparr>rec = \<lparr>channel_id = Some ''UC1'', channel_name = Some ''one'', description = None,
              published_at_str = Some ''2023-11-14T22:13:20Z'',
              published_at = Some 1700000000000000,
              subscriber_count = n, view_count = 1234567, video_count = 12,
              hidden_subscriber_count = h\<rparr>,
      is_new = True\<rparr>"

definition sample_library :: library where
  "sample_library =
     \<lparr>lib_build = (\<lambda>k. Inl (OtherError ''no network'')),
      lib_isoparse = sample_isoparse,
      lib_isoformat = (\<lambda>t. ''2023-10-15T22:13:20+00:00''),
      lib_strftime = (\<lambda>t. ''2023-11-14 22:13''),
      lib_sort_values = (\<lambda>rows. rows)\<rparr>"

definition no_key :: widgets where
  "no_key = \<lparr>api_key = [], start_search = True, max_videos = 100, new_channel_days = 30,
             today = 1700000000000000\<rparr>"

definition video_item :: "string \<Rightarrow> string \<Rightarrow> search_item" where
  "video_item v c = \<lparr>videoId = Some v, channelId = Some c\<rparr>"

definition first_page :: search_response where
  "first_page = \<lparr>search_items = Some [video_item ''v1'' ''cA'', video_item ''v2'' ''cB''],
                 nextPageToken = Some ''t1''\<rparr>"

definition second_page :: search_response where
  "second_page = \<lparr>search_items = Some [video_item ''v3'' ''cA'', video_item ''v4'' ''cC''],
                  nextPageToken = None\<rparr>"

definition two_pages :: youtube where
  "two_pages =
     \<lparr>search_execute =
        (\<lambda>k req. if k = 0 then Inr first_page else if k = 1 then Inr second_page
                   else Inl (OtherError ''no more pages'')),
      channels_execute = (\<lambda>k ids. Inl (OtherError ''unused''))\<rparr>"

definition second_call_fails :: youtube where
  "second_call_fails =
     \<lparr>search_execute =
        (\<lambda>k req. if k = 0 then Inr first_page else Inl (HttpError ''quotaExceeded'')),
      channels_execute = (\<lambda>k ids. Inl (OtherError ''unused''))\<rparr>"

definition request :: "nat \<Rightarrow> string option \<Rightarrow> search_request" where
  "request n tok = \<lparr>publishedAfter = ''2023-10-15T22:13:20+00:00'', maxResults = n, pageToken = tok\<rparr>"

section \<open>Evaluation of the built-ins\<close>

lemmas py_int_eval = py_int_def strip_def is_space_def is_digit_def digit_val_def

lemma char_of_eq_iff: "n < 256 \<Longrightarrow> (char_of (n::nat) = c) = (n = of_char c)"
proof
  assume n: "n < 256" and "char_of n = c"
  then have "(of_char (char_of n) :: nat) = of_char c" by simp
  with n show "n = of_char c" by simp
next
  assume "n = of_char c"
  then show "char_of n = c" by simp
qed

section \<open>Popular-Video Finder\<close>

subsection \<open>The set of channel ids\<close>

lemma set_add_idem: "set_add x (set_add x xs) = set_add x xs"
  by (simp add: set_add_def)

lemma set_add_member: "x \<in> set xs \<Longrightarrow> set_add x xs = xs"
  by (simp add: set_add_def)

lemma set_set_add: "set (set_add x xs) = insert x (set xs)"
  by (auto simp: set_add_def)

lemma distinct_set_add: "distinct xs \<Longrightarrow> distinct (set_add x xs)"
  by (simp add: set_add_def)

lemma add_all_Nil: "add_all [] s = s"
  by (simp add: add_all_def)

lemma add_all_Cons: "add_all (x # xs) s = add_all xs (set_add x s)"
  by (simp add: add_all_def)

lemma add_all_append: "add_all (xs @ ys) s = add_all ys (add_all xs s)"
  by (simp add: add_all_def)

lemma set_add_all: "set (add_all xs s) = set s \<union> set xs"
  by (induction xs arbitrary: s) (auto simp: add_all_Nil add_all_Cons set_set_add)

lemma distinct_add_all: "distinct s \<Longrightarrow> distinct (add_all xs s)"
  by (induction xs arbitrary: s) (simp_all add: add_all_Nil add_all_Cons distinct_set_add)

lemma length_add_all_Nil: "length (add_all xs []) = card (set xs)"
proof -
  have "distinct (add_all xs [])" by (simp add: distinct_add_all)
  then have "length (add_all xs []) = card (set (add_all xs []))"
    by (simp add: distinct_card)
  then show ?thesis by (simp add: set_add_all)
qed

subsection \<open>The loop over the items of a page\<close>

lemma scan_items_take:
  assumes "n < max_results"
  shows "scan_items max_results items (vs, cs, n) =
     (if \<forall>it \<in> set (take (max_results - n) items). well_keyed it
      then Inr (vs @ map video_of (take (max_results - n) items),
                add_all (map channel_of (take (max_results - n) items)) cs,
                n + length (take (max_results - n) items))
      else scan_items max_results items (vs, cs, n))"
  using assms
proof (induction items arbitrary: vs cs n)
  case Nil
  show ?case by (simp add: add_all_Nil)
next
  case (Cons item items)
  obtain m where m: "max_results - n = Suc m" using Cons.prems by (cases "max_results - n") auto
  show ?case
  proof (cases "well_keyed item")
    case False
    then show ?thesis by (simp add: m)
  next
    case True
    then obtain v c where vc: "videoId item = Some v" "channelId item = Some c"
      by (auto simp: well_keyed_def)
    then have of: "video_of item = v" "channel_of item = c"
      by (simp_all add: video_of_def channel_of_def)
    show ?thesis
    proof (cases "max_results \<le> n + 1")
      case True
      then have "m = 0" using m by simp
      with vc of True m \<open>well_keyed item\<close> show ?thesis
        by (simp add: add_all_Cons add_all_Nil)
    next
      case False
      then have lt: "n + 1 < max_results" by simp
      have m': "max_results - (n + 1) = m" using m by simp
      from Cons.IH[OF lt, of "vs @ [v]" "set_add c cs"] vc of False m m' \<open>well_keyed item\<close>
      show ?thesis
        by (simp add: add_all_Cons)
    qed
  qed
qed

lemma scan_items_bad:
  assumes "n < max_results" "\<exists>it \<in> set (take (max_results - n) items). \<not> well_keyed it"
  shows "\<exists>e. scan_items max_results items (vs, cs, n) = Inl e"
  using assms
proof (induction items arbitrary: vs cs n)
  case Nil
  then show ?case by simp
next
  case (Cons item items)
  obtain m where m: "max_results - n = Suc m" using Cons.prems(1) by (cases "max_results - n") auto
  show ?case
  proof (cases "well_keyed item")
    case False
    then show ?thesis by (auto simp: well_keyed_def split: option.splits)
  next
    case True
    then obtain v c where vc: "videoId item = Some v" "channelId item = Some c"
      by (auto simp: well_keyed_def)
    from Cons.prems(2) True m have bad: "\<exists>it \<in> set (take m items). \<not> well_keyed it" by simp
    then have "m \<noteq> 0" by (cases m) auto
    then have lt: "n + 1 < max_results" and m': "max_results - (n + 1) = m" using m by simp_all
    from Cons.IH[OF lt, of "vs @ [v]" "set_add c cs"] bad m' vc lt show ?thesis by simp
  qed
qed

subsection \<open>The loop over the pages\<close>

lemma call_simps [simp]: "calls (call c s) = calls s @ [c]" "msgs (call c s) = msgs s"
  by (simp_all add: call_def)

lemma search_loop_run:
  "search_loop fuel yt pa max_results k (vs, cs, tok, n) s = Some (res, s') \<Longrightarrow>
     \<exists>reqs. calls s' = calls s @ map Search_call reqs \<and> msgs s' = msgs s \<and>
        length reqs \<le> fuel \<and>
        reqs = expected_requests pa max_results n tok (pages_from yt k reqs) \<and>
        (\<forall>j < length reqs.
           n + length (concat (map page_items (take j (pages_from yt k reqs)))) < max_results) \<and>
        (\<forall>p \<in> set (butlast (pages_from yt k reqs)). \<not> isl p) \<and>
        loop_result max_results (vs, cs, tok, n) (pages_from yt k reqs) res"
proof (induction fuel arbitrary: k vs cs tok n s)
  case 0
  then have "\<not> n < max_results" "res = Inr (vs, cs, tok, n)" "s' = s"
    by (auto simp: results_fetched_of_def split: if_splits)
  then show ?case
    by (intro exI[of _ "[]"]) (simp add: loop_result_def add_all_Nil results_fetched_of_def)
next
  case (Suc fuel)
  show ?case
  proof (cases "n < max_results")
    case False
    with Suc.prems have "res = Inr (vs, cs, tok, n)" "s' = s"
      by (auto simp: results_fetched_of_def)
    with False show ?thesis
      by (intro exI[of _ "[]"]) (simp add: loop_result_def add_all_Nil results_fetched_of_def)
  next
    case lt: True
    define req where "req = \<lparr>publishedAfter = pa,
        maxResults = min MAX_VIDEO_RESULTS_PER_PAGE (max_results - n), pageToken = tok\<rparr>"
    define s1 where "s1 = call (Search_call req) s"
    have run: "(case search_page yt pa max_results k (vs, cs, tok, n) s of
           Leave r s1 \<Rightarrow> Some (r, s1)
         | Again st1 s1 \<Rightarrow> search_loop fuel yt pa max_results (Suc k) st1 s1) = Some (res, s')"
      using Suc.prems lt by (simp add: results_fetched_of_def)
    have one: "expected_requests pa max_results n tok [search_execute yt k req] = [req]"
      by (simp add: req_def)
    show ?thesis
    proof (cases "search_execute yt k req")
      case (Inl e)
      then have "search_page yt pa max_results k (vs, cs, tok, n) s = Leave (Inl e) s1"
        by (simp add: search_page_def Let_def req_def s1_def)
      with run have "res = Inl e" "s' = s1" by simp_all
      with Inl one lt show ?thesis
        by (intro exI[of _ "[req]"]) (simp add: s1_def loop_result_def)
    next
      case (Inr r)
      let ?sc = "take (max_results - n) (get_items r)"
      show ?thesis
      proof (cases "\<forall>it \<in> set ?sc. well_keyed it")
        case False
        then obtain e where e: "scan_items max_results (get_items r) (vs, cs, n) = Inl e"
          using scan_items_bad[OF lt, of "get_items r" vs cs] by auto
        with Inr have "search_page yt pa max_results k (vs, cs, tok, n) s = Leave (Inl e) s1"
          by (simp add: search_page_def Let_def req_def s1_def)
        with run have "res = Inl e" "s' = s1" by simp_all
        with Inr one False lt show ?thesis
          by (intro exI[of _ "[req]"]) (simp add: s1_def loop_result_def page_items_def)
      next
        case True
        define st1 where "st1 = (vs @ map video_of ?sc, add_all (map channel_of ?sc) cs,
                                  nextPageToken r, n + length ?sc)"
        have sc: "scan_items max_results (get_items r) (vs, cs, n) =
                    Inr (vs @ map video_of ?sc, add_all (map channel_of ?sc) cs, n + length ?sc)"
          using scan_items_take[OF lt, of "get_items r" vs cs] True by simp
        show ?thesis
        proof (cases "\<not> truthy (nextPageToken r) \<or> max_results \<le> n + length ?sc")
          case stop: True
          with Inr sc have "search_page yt pa max_results k (vs, cs, tok, n) s = Leave (Inr st1) s1"
            by (simp add: search_page_def Let_def req_def s1_def st1_def)
          with run have "res = Inr st1" "s' = s1" by simp_all
          with Inr one True lt show ?thesis
            by (intro exI[of _ "[req]"])
               (simp add: s1_def loop_result_def page_items_def st1_def results_fetched_of_def)
        next
          case go: False
          with Inr sc have "search_page yt pa max_results k (vs, cs, tok, n) s = Again st1 s1"
            by (simp add: search_page_def Let_def req_def s1_def st1_def)
          with run have rec: "search_loop fuel yt pa max_results (Suc k)
              (vs @ map video_of ?sc, add_all (map channel_of ?sc) cs,
               nextPageToken r, n + length ?sc) s1 = Some (res, s')"
            by (simp add: st1_def)
          from go have all: "?sc = get_items r" and n1: "n + length (get_items r) < max_results"
            by (auto simp: min_def split: if_splits)
          from Suc.IH[OF rec] obtain reqs where
            c: "calls s' = calls s1 @ map Search_call reqs" and m: "msgs s' = msgs s1"
            and l: "length reqs \<le> fuel"
            and e: "reqs = expected_requests pa max_results (n + length ?sc) (nextPageToken r)
                      (pages_from yt (Suc k) reqs)"
            and q: "\<forall>j < length reqs. n + length ?sc
                      + length (concat (map page_items (take j (pages_from yt (Suc k) reqs))))
                      < max_results"
            and b: "\<forall>p \<in> set (butlast (pages_from yt (Suc k) reqs)). \<not> isl p"
            and lr: "loop_result max_results
                      (vs @ map video_of ?sc, add_all (map channel_of ?sc) cs,
                       nextPageToken r, n + length ?sc)
                      (pages_from yt (Suc k) reqs) res"
            by blast
          let ?ps = "pages_from yt (Suc k) reqs"
          let ?rest = "concat (map page_items ?ps)"
          have tk: "take (max_results - n) (get_items r @ ?rest) =
                    get_items r @ take (max_results - (n + length (get_items r))) ?rest"
            using n1 by simp
          have e': "req # reqs =
                expected_requests pa max_results n tok (pages_from yt k (req # reqs))"
            using e Inr all by (simp add: req_def page_items_def page_token_def)
          have lr': "loop_result max_results (vs, cs, tok, n) (pages_from yt k (req # reqs)) res"
          proof (cases res)
            case (Inl x)
            with lr Inr all True show ?thesis
              by (auto simp add: loop_result_def Let_def page_items_def tk)
          next
            case (Inr st')
            with lr \<open>search_execute yt k req = Inr r\<close> all True show ?thesis
              by (auto simp add: loop_result_def Let_def page_items_def tk add_all_append)
          qed
          have q': "\<forall>j < length (req # reqs).
                 n + length (concat (map page_items (take j (pages_from yt k (req # reqs)))))
                   < max_results"
          proof (intro allI impI)
            fix j assume j: "j < length (req # reqs)"
            show "n + length (concat (map page_items (take j (pages_from yt k (req # reqs)))))
                   < max_results"
            proof (cases j)
              case 0
              with lt show ?thesis by simp
            next
              case (Suc j')
              with j q all Inr show ?thesis
                by (simp add: page_items_def add.assoc)
            qed
          qed
          have c': "calls s' = calls s @ map Search_call (req # reqs)"
            using c by (simp add: s1_def)
          have m': "msgs s' = msgs s" using m by (simp add: s1_def)
          have l': "length (req # reqs) \<le> Suc fuel" using l by simp
          have b': "\<forall>p \<in> set (butlast (pages_from yt k (req # reqs))). \<not> isl p"
            using b Inr by (cases reqs) simp_all
          from c' m' l' e' q' b' lr' show ?thesis by blast
        qed
      qed
    qed
  qed
qed

lemma length_pages_from [simp]: "length (pages_from yt k reqs) = length reqs"
  by (induction reqs arbitrary: k) simp_all

lemma length_expected_requests [simp]: "length (expected_requests pa m n tok ps) = length ps"
  by (induction ps arbitrary: n tok) simp_all

lemma expected_requests_nth:
  "j < length ps \<Longrightarrow>
     expected_requests pa m n tok ps ! j =
       \<lparr>publishedAfter = pa,
        maxResults = min MAX_VIDEO_RESULTS_PER_PAGE
                       (m - (n + length (concat (map page_items (take j ps))))),
        pageToken = (if j = 0 then tok else page_token (ps ! (j - 1)))\<rparr>"
proof (induction ps arbitrary: j n tok)
  case Nil
  then show ?case by simp
next
  case (Cons p ps)
  show ?case
  proof (cases j)
    case 0
    then show ?thesis by simp
  next
    case (Suc j')
    with Cons.prems have "j' < length ps" by simp
    from Cons.IH[OF this, of "n + length (page_items p)" "page_token p"] Suc
    show ?thesis by (cases j') (simp_all add: add.assoc)
  qed
qed

subsection \<open>Termination of the loop\<close>

lemma search_page_Again_progress:
  assumes "search_page yt pa max_results k (vs, cs, tok, n) s = Again st1 s1" "n < max_results"
    and "\<forall>k req r. search_execute yt k req = Inr r \<longrightarrow>
           get_items r \<noteq> [] \<or> \<not> truthy (nextPageToken r)"
  shows "n < results_fetched_of st1"
proof -
  define req where "req = \<lparr>publishedAfter = pa,
        maxResults = min MAX_VIDEO_RESULTS_PER_PAGE (max_results - n), pageToken = tok\<rparr>"
  from assms(1) obtain r where r: "search_execute yt k req = Inr r"
    by (cases "search_execute yt k req") (simp_all add: search_page_def Let_def req_def)
  let ?sc = "take (max_results - n) (get_items r)"
  have good: "\<forall>it \<in> set ?sc. well_keyed it"
  proof (rule ccontr)
    assume "\<not> ?thesis"
    then obtain e where "scan_items max_results (get_items r) (vs, cs, n) = Inl e"
      using scan_items_bad[OF assms(2), of "get_items r" vs cs] by auto
    with r assms(1) show False by (simp add: search_page_def Let_def req_def)
  qed
  have sc: "scan_items max_results (get_items r) (vs, cs, n) =
              Inr (vs @ map video_of ?sc, add_all (map channel_of ?sc) cs, n + length ?sc)"
    using scan_items_take[OF assms(2), of "get_items r" vs cs] good by simp
  from assms(1) r sc have t: "truthy (nextPageToken r)"
    and st1: "st1 = (vs @ map video_of ?sc, add_all (map channel_of ?sc) cs,
                     nextPageToken r, n + length ?sc)"
    by (auto simp: search_page_def Let_def req_def split: if_splits)
  from assms(3) r t have "get_items r \<noteq> []" by blast
  with assms(2) have "0 < length ?sc" by simp
  with st1 show ?thesis by (simp add: results_fetched_of_def)
qed

lemma search_loop_terminates:
  assumes "\<forall>k req r. search_execute yt k req = Inr r \<longrightarrow>
             get_items r \<noteq> [] \<or> \<not> truthy (nextPageToken r)"
  shows "max_results - results_fetched_of st \<le> fuel \<Longrightarrow>
           \<exists>out. search_loop fuel yt pa max_results k st s = Some out"
proof (induction fuel arbitrary: k st s)
  case 0
  then show ?case by simp
next
  case (Suc fuel)
  obtain vs cs tok n where st: "st = (vs, cs, tok, n)" by (cases st) auto
  show ?case
  proof (cases "results_fetched_of st < max_results")
    case False
    then show ?thesis by simp
  next
    case True
    then have lt: "n < max_results" by (simp add: st results_fetched_of_def)
    show ?thesis
    proof (cases "search_page yt pa max_results k st s")
      case (Leave r s1)
      with True show ?thesis by simp
    next
      case (Again st1 s1)
      from search_page_Again_progress[OF Again[unfolded st] lt assms]
      have "max_results - results_fetched_of st1 \<le> fuel"
        using Suc.prems by (simp add: st results_fetched_of_def)
      from Suc.IH[OF this] Again True show ?thesis by simp
    qed
  qed
qed

lemma search_loop_returns_on_error:
  "\<forall>req. isl (search_execute yt (k + j) req) \<Longrightarrow> j < fuel \<Longrightarrow>
     \<exists>out. search_loop fuel yt pa max_results k st s = Some out"
proof (induction fuel arbitrary: j k st s)
  case 0
  then show ?case by simp
next
  case (Suc fuel)
  obtain vs cs tok n where st: "st = (vs, cs, tok, n)" by (cases st) auto
  show ?case
  proof (cases "results_fetched_of st < max_results")
    case False
    then show ?thesis by simp
  next
    case True
    show ?thesis
    proof (cases "search_page yt pa max_results k st s")
      case (Leave r s1)
      with True show ?thesis by simp
    next
      case (Again st1 s1)
      have "j \<noteq> 0"
      proof
        assume "j = 0"
        with Suc.prems(1) have "isl (search_execute yt k \<lparr>publishedAfter = pa,
           maxResults = min MAX_VIDEO_RESULTS_PER_PAGE (max_results - n), pageToken = tok\<rparr>)"
          by simp
        with Again show False
          by (auto simp: st search_page_def Let_def isl_def)
      qed
      then obtain j' where j: "j = Suc j'" by (cases j) auto
      with Suc.prems have "\<forall>req. isl (search_execute yt (Suc k + j') req)" "j' < fuel"
        by simp_all
      from Suc.IH[OF this] Again True show ?thesis by simp
    qed
  qed
qed

subsection \<open>The whole search\<close>

lemma search_popular_videos_run:
  assumes "search_popular_videos fuel yt pa max_results s = Some (ids, s')"
  shows "\<exists>reqs res s1.
      search_loop fuel yt pa max_results 0 ([], [], None, 0) (say Write_searching s) = Some (res, s1) \<and>
      calls s' = calls s @ map Search_call reqs \<and> length reqs \<le> fuel \<and>
      reqs = expected_requests pa max_results 0 None (pages_from yt 0 reqs) \<and>
      (\<forall>j < length reqs.
         length (concat (map page_items (take j (pages_from yt 0 reqs)))) < max_results) \<and>
      (\<forall>p \<in> set (butlast (pages_from yt 0 reqs)). \<not> isl p) \<and>
      loop_result max_results ([], [], None, 0) (pages_from yt 0 reqs) res \<and>
      ids = (case res of Inl e \<Rightarrow> [] | Inr st \<Rightarrow> fst (snd st)) \<and>
      msgs s' = msgs s @ Write_searching #
        (case res of
           Inl e \<Rightarrow> (if is_HttpError e then [Error_search_api e, Error_search_hint]
                     else [Error_search_unexpected e])
         | Inr st \<Rightarrow> [Write_found (length ids)])"
proof -
  from assms obtain res s1 where
    l: "search_loop fuel yt pa max_results 0 ([], [], None, 0) (say Write_searching s) = Some (res, s1)"
    by (cases "search_loop fuel yt pa max_results 0 ([], [], None, 0) (say Write_searching s)")
       (auto simp: search_popular_videos_def)
  from search_loop_run[OF l] obtain reqs where
    c: "calls s1 = calls (say Write_searching s) @ map Search_call reqs"
    and m: "msgs s1 = msgs (say Write_searching s)"
    and n: "length reqs \<le> fuel"
    and e: "reqs = expected_requests pa max_results 0 None (pages_from yt 0 reqs)"
    and q: "\<forall>j < length reqs.
         0 + length (concat (map page_items (take j (pages_from yt 0 reqs)))) < max_results"
    and b: "\<forall>p \<in> set (butlast (pages_from yt 0 reqs)). \<not> isl p"
    and r: "loop_result max_results ([], [], None, 0) (pages_from yt 0 reqs) res"
    by blast
  have f: "ids = (case res of Inl e \<Rightarrow> [] | Inr st \<Rightarrow> fst (snd st)) \<and>
      calls s' = calls s1 \<and>
      msgs s' = msgs s @ Write_searching #
        (case res of
           Inl e \<Rightarrow> (if is_HttpError e then [Error_search_api e, Error_search_hint]
                     else [Error_search_unexpected e])
         | Inr st \<Rightarrow> [Write_found (length ids)])"
  proof (cases res)
    case (Inl x)
    with assms l m show ?thesis
      by (auto simp: search_popular_videos_def search_failed_def say_def)
  next
    case (Inr st)
    obtain vs cs tok k where "st = (vs, cs, tok, k)" by (cases st) auto
    with Inr assms l m show ?thesis
      by (auto simp: search_popular_videos_def say_def)
  qed
  have c': "calls s' = calls s @ map Search_call reqs"
    using f c by (simp add: say_def)
  have q': "\<forall>j < length reqs.
         length (concat (map page_items (take j (pages_from yt 0 reqs)))) < max_results"
    using q by simp
  from l c' n e q' b r f show ?thesis by blast
qed

lemma loop_result_normal:
  assumes "loop_result max_results ([], [], None, 0) pages res"
  shows "(\<forall>p \<in> set pages. \<not> isl p) \<and> (\<forall>it \<in> set (scanned_items max_results pages). well_keyed it)
           \<longleftrightarrow> (\<exists>st. res = Inr st)"
proof (cases res)
  case (Inl e)
  with assms have ne: "pages \<noteq> []"
    and d: "last pages = Inl e \<or> (\<exists>it \<in> set (scanned_items max_results pages). \<not> well_keyed it)"
    by (simp_all add: loop_result_def scanned_items_def)
  from ne have "last pages \<in> set pages" by simp
  with d Inl show ?thesis by (metis isl_def sum.distinct(1))
next
  case (Inr st)
  with assms have a: "(\<forall>p \<in> set pages. \<not> isl p) \<and>
      (\<forall>it \<in> set (scanned_items max_results pages). well_keyed it)"
    by (simp add: loop_result_def scanned_items_def Let_def)
  have b: "\<exists>st. res = Inr st" using Inr by blast
  from a b show ?thesis by blast
qed

lemma loop_result_Inr:
  assumes "loop_result max_results ([], [], None, 0) pages (Inr st)"
  shows "fst st = map video_of (scanned_items max_results pages)"
    and "fst (snd st) = add_all (map channel_of (scanned_items max_results pages)) []"
    and "results_fetched_of st = length (scanned_items max_results pages)"
  using assms by (simp_all add: loop_result_def scanned_items_def Let_def)

lemma distinct_count_list: "distinct xs \<Longrightarrow> x \<in> set xs \<Longrightarrow> count_list xs x = 1"
  by (induction xs) auto

lemmas search_eval =
  search_popular_videos_def search_page_def results_fetched_of_def get_items_def truthy_def
  MAX_VIDEO_RESULTS_PER_PAGE_def call_def say_def io0_def video_item_def first_page_def
  second_page_def set_add_def request_def search_failed_def

lemma two_pages_run:
  "search_popular_videos (Suc (Suc 0)) two_pages ''2023-10-15T22:13:20+00:00'' 10 io0 =
     Some ([''cA'', ''cB'', ''cC''],
           \<lparr>msgs = [Write_searching, Write_found 3],
            calls = [Search_call (request 10 None), Search_call (request 8 (Some ''t1''))]\<rparr>)"
  by (simp add: search_eval two_pages_def)

lemma second_call_fails_run:
  "search_popular_videos (Suc (Suc 0)) second_call_fails ''2023-10-15T22:13:20+00:00'' 10 io0 =
     Some ([],
           \<lparr>msgs = [Write_searching, Error_search_api (HttpError ''quotaExceeded''),
                    Error_search_hint],
            calls = [Search_call (request 10 None), Search_call (request 8 (Some ''t1''))]\<rparr>)"
  by (simp add: search_eval second_call_fails_def)

lemma distinct_count_list_le: "distinct xs \<Longrightarrow> count_list xs x \<le> 1"
  by (cases "x \<in> set xs") (simp_all add: distinct_count_list)

text \<open>
  Claim C5: whatever pages the service returns, no channel id occurs twice in the list the
  Finder returns; adding an id that is already in the set changes nothing; and when no
  request raised and every scanned item has its keys, the list holds the channel id of
  every scanned item exactly once, also when pages repeat an id.  The Finder returns
  within \<^verbatim>\<open>max_results\<close> turns when every page that announces a next page has an item.
\<close>

theorem C5_each_channel_id_once:
  "(\<forall>ids s'. search_popular_videos fuel yt pa max_results s = Some (ids, s') \<longrightarrow>
      distinct ids \<and> (\<forall>c. count_list ids c \<le> 1) \<and>
      (\<exists>reqs. calls s' = calls s @ map Search_call reqs \<and>
         ((\<forall>p \<in> set (pages_from yt 0 reqs). \<not> isl p) \<and>
          (\<forall>it \<in> set (scanned_items max_results (pages_from yt 0 reqs)). well_keyed it) \<longrightarrow>
            set ids = channel_of ` set (scanned_items max_results (pages_from yt 0 reqs)) \<and>
            (\<forall>it \<in> set (scanned_items max_results (pages_from yt 0 reqs)).
               count_list ids (channel_of it) = 1)))) \<and>
   set_add c (set_add c cs) = set_add c cs \<and> (c \<in> set cs \<longrightarrow> set_add c cs = cs) \<and>
   ((\<forall>k req r. search_execute yt k req = Inr r \<longrightarrow>
        get_items r \<noteq> [] \<or> \<not> truthy (nextPageToken r)) \<and> max_results \<le> fuel \<longrightarrow>
      (\<exists>ids s'. search_popular_videos fuel yt pa max_results s = Some (ids, s')))"
proof -
  have run: "\<forall>ids s'. search_popular_videos fuel yt pa max_results s = Some (ids, s') \<longrightarrow>
      distinct ids \<and> (\<forall>c. count_list ids c \<le> 1) \<and>
      (\<exists>reqs. calls s' = calls s @ map Search_call reqs \<and>
         ((\<forall>p \<in> set (pages_from yt 0 reqs). \<not> isl p) \<and>
          (\<forall>it \<in> set (scanned_items max_results (pages_from yt 0 reqs)). well_keyed it) \<longrightarrow>
            set ids = channel_of ` set (scanned_items max_results (pages_from yt 0 reqs)) \<and>
            (\<forall>it \<in> set (scanned_items max_results (pages_from yt 0 reqs)).
               count_list ids (channel_of it) = 1)))"
  proof (intro allI impI)
    fix ids s'
    assume a: "search_popular_videos fuel yt pa max_results s = Some (ids, s')"
    from search_popular_videos_run[OF a] obtain reqs res where
      c: "calls s' = calls s @ map Search_call reqs"
      and r: "loop_result max_results ([], [], None, 0) (pages_from yt 0 reqs) res"
      and i: "ids = (case res of Inl e \<Rightarrow> [] | Inr st \<Rightarrow> fst (snd st))"
      by blast
    let ?sc = "scanned_items max_results (pages_from yt 0 reqs)"
    have d: "distinct ids"
    proof (cases res)
      case (Inl e)
      with i show ?thesis by simp
    next
      case (Inr st)
      with i r loop_result_Inr(2)[of max_results "pages_from yt 0 reqs" st]
      show ?thesis by (simp add: distinct_add_all)
    qed
    have n: "(\<forall>p \<in> set (pages_from yt 0 reqs). \<not> isl p) \<and> (\<forall>it \<in> set ?sc. well_keyed it) \<longrightarrow>
             set ids = channel_of ` set ?sc \<and>
             (\<forall>it \<in> set ?sc. count_list ids (channel_of it) = 1)"
    proof
      assume "(\<forall>p \<in> set (pages_from yt 0 reqs). \<not> isl p) \<and> (\<forall>it \<in> set ?sc. well_keyed it)"
      with loop_result_normal[OF r] obtain st where st: "res = Inr st" by blast
      with i r loop_result_Inr(2)[of max_results "pages_from yt 0 reqs" st]
      have "ids = add_all (map channel_of ?sc) []" by simp
      then have s: "set ids = channel_of ` set ?sc" by (simp add: set_add_all)
      have "\<forall>it \<in> set ?sc. count_list ids (channel_of it) = 1"
      proof
        fix it assume "it \<in> set ?sc"
        then have "channel_of it \<in> set ids" using s by blast
        with d show "count_list ids (channel_of it) = 1" by (rule distinct_count_list)
      qed
      with s show "set ids = channel_of ` set ?sc \<and>
             (\<forall>it \<in> set ?sc. count_list ids (channel_of it) = 1)"
        by blast
    qed
    have cl: "\<forall>c. count_list ids c \<le> 1"
      using distinct_count_list_le[OF d] by blast
    have ex: "\<exists>reqs. calls s' = calls s @ map Search_call reqs \<and>
          ((\<forall>p \<in> set (pages_from yt 0 reqs). \<not> isl p) \<and>
           (\<forall>it \<in> set (scanned_items max_results (pages_from yt 0 reqs)). well_keyed it) \<longrightarrow>
             set ids = channel_of ` set (scanned_items max_results (pages_from yt 0 reqs)) \<and>
             (\<forall>it \<in> set (scanned_items max_results (pages_from yt 0 reqs)).
                count_list ids (channel_of it) = 1))"
      using c n by blast
    from d cl ex show "distinct ids \<and> (\<forall>c. count_list ids c \<le> 1) \<and>
      (\<exists>reqs. calls s' = calls s @ map Search_call reqs \<and>
         ((\<forall>p \<in> set (pages_from yt 0 reqs). \<not> isl p) \<and>
          (\<forall>it \<in> set (scanned_items max_results (pages_from yt 0 reqs)). well_keyed it) \<longrightarrow>
            set ids = channel_of ` set (scanned_items max_results (pages_from yt 0 reqs)) \<and>
            (\<forall>it \<in> set (scanned_items max_results (pages_from yt 0 reqs)).
               count_list ids (channel_of it) = 1)))"
      by (intro conjI)
  qed
  have sa: "set_add c (set_add c cs) = set_add c cs" "c \<in> set cs \<longrightarrow> set_add c cs = cs"
    by (simp_all add: set_add_idem set_add_member)
  have ret: "(\<forall>k req r. search_execute yt k req = Inr r \<longrightarrow>
        get_items r \<noteq> [] \<or> \<not> truthy (nextPageToken r)) \<and> max_results \<le> fuel \<longrightarrow>
      (\<exists>ids s'. search_popular_videos fuel yt pa max_results s = Some (ids, s'))"
  proof
    assume a: "(\<forall>k req r. search_execute yt k req = Inr r \<longrightarrow>
        get_items r \<noteq> [] \<or> \<not> truthy (nextPageToken r)) \<and> max_results \<le> fuel"
    then have "max_results - results_fetched_of ([], [], None, 0) \<le> fuel"
      by (simp add: results_fetched_of_def)
    from search_loop_terminates[OF conjunct1[OF a] this, of pa 0 "say Write_searching s"]
    obtain res s1 where
      "search_loop fuel yt pa max_results 0 ([], [], None, 0) (say Write_searching s) = Some (res, s1)"
      by auto
    then show "\<exists>ids s'. search_popular_videos fuel yt pa max_results s = Some (ids, s')"
      by (cases res) (auto simp: search_popular_videos_def)
  qed
  from run sa ret show ?thesis by (intro conjI)
qed

theorem C5_each_channel_id_once_witness:
  "(\<exists>ids s'. search_popular_videos (Suc (Suc 0)) two_pages ''2023-10-15T22:13:20+00:00'' 10 io0
               = Some (ids, s') \<and>
      set ids = {''cA'', ''cB'', ''cC''} \<and> distinct ids \<and> count_list ids ''cA'' \<le> 1) \<and>
   channel_of ` set (scanned_items 10 [Inr first_page, Inr second_page]) = {''cA'', ''cB'', ''cC''} \<and>
   (\<exists>ids s'. search_popular_videos 10 two_pages ''2023-10-15T22:13:20+00:00'' 10 io0 = Some (ids, s'))"
proof -
  note t = C5_each_channel_id_once[of _ two_pages "''2023-10-15T22:13:20+00:00''" 10 io0]
  note r = mp[OF spec[OF spec[OF conjunct1[OF t]]] two_pages_run]
  have d: "distinct [''cA'', ''cB'', ''cC'']" by (rule conjunct1[OF r])
  have c: "\<forall>c. count_list [''cA'', ''cB'', ''cC''] c \<le> 1"
    by (rule conjunct1[OF conjunct2[OF r]])
  have s: "set [''cA'', ''cB'', ''cC''] = {''cA'', ''cB'', ''cC''}" by simp
  from two_pages_run s d spec[OF c, of "''cA''"]
  have a: "\<exists>ids s'. search_popular_videos (Suc (Suc 0)) two_pages ''2023-10-15T22:13:20+00:00'' 10 io0
               = Some (ids, s') \<and>
      set ids = {''cA'', ''cB'', ''cC''} \<and> distinct ids \<and> count_list ids ''cA'' \<le> 1"
    by (intro exI conjI)
  have sc: "channel_of ` set (scanned_items 10 [Inr first_page, Inr second_page])
              = {''cA'', ''cB'', ''cC''}"
    by (simp add: scanned_items_def page_items_def get_items_def first_page_def second_page_def
          video_item_def channel_of_def insert_commute)
  have prog: "\<forall>k req r. search_execute two_pages k req = Inr r \<longrightarrow>
        get_items r \<noteq> [] \<or> \<not> truthy (nextPageToken r)"
    by (auto simp: two_pages_def get_items_def first_page_def second_page_def)
  from conjunct2[OF conjunct2[OF conjunct2[OF t]], of 10] prog
  have b: "\<exists>ids s'. search_popular_videos 10 two_pages ''2023-10-15T22:13:20+00:00'' 10 io0 = Some (ids, s')"
    by simp
  from a sc b show ?thesis by (intro conjI)
qed

text \<open>
  Claim C6: in every run that returns, the scanned items are at most \<^verbatim>\<open>max_results\<close>,
  the returned list is no longer than the number of distinct channel ids among them
  (equal to it when the loop ends without an exception), and that number is at most
  \<^verbatim>\<open>max_results\<close>; request number \<open>j\<close> is only made while fewer than
  \<^verbatim>\<open>max_results\<close> items have arrived, asks for the minimum of the page ceiling and
  what is left, and carries the token of the page before.  At a normal end of the loop
  \<^verbatim>\<open>video_ids\<close> lists the scanned items and \<^verbatim>\<open>results_fetched\<close> counts them.
  The run returns within \<^verbatim>\<open>max_results\<close> turns when every page that announces a next
  page has an item.
\<close>

theorem C6_at_most_max_results:
  "(\<forall>ids s'. search_popular_videos fuel yt pa max_results s = Some (ids, s') \<longrightarrow>
     (\<exists>reqs. calls s' = calls s @ map Search_call reqs \<and> length reqs \<le> fuel \<and>
        length (scanned_items max_results (pages_from yt 0 reqs)) \<le> max_results \<and>
        length ids \<le> card (channel_of ` set (scanned_items max_results (pages_from yt 0 reqs))) \<and>
        card (channel_of ` set (scanned_items max_results (pages_from yt 0 reqs))) \<le> max_results \<and>
        (\<forall>j < length reqs.
           length (concat (map page_items (take j (pages_from yt 0 reqs)))) < max_results \<and>
           reqs ! j =
             \<lparr>publishedAfter = pa,
              maxResults = min MAX_VIDEO_RESULTS_PER_PAGE
                 (max_results - length (concat (map page_items (take j (pages_from yt 0 reqs))))),
              pageToken = (if j = 0 then None else page_token (pages_from yt 0 reqs ! (j - 1)))\<rparr>) \<and>
        (\<forall>st s1. search_loop fuel yt pa max_results 0 ([], [], None, 0) (say Write_searching s)
                    = Some (Inr st, s1) \<longrightarrow>
           fst st = map video_of (scanned_items max_results (pages_from yt 0 reqs)) \<and>
           results_fetched_of st = length (scanned_items max_results (pages_from yt 0 reqs)) \<and>
           fst (snd st) = ids \<and>
           length ids = card (channel_of ` set (scanned_items max_results (pages_from yt 0 reqs)))))) \<and>
   ((\<forall>k req r. search_execute yt k req = Inr r \<longrightarrow>
        get_items r \<noteq> [] \<or> \<not> truthy (nextPageToken r)) \<and> max_results \<le> fuel \<longrightarrow>
      (\<exists>ids s'. search_popular_videos fuel yt pa max_results s = Some (ids, s')))"
proof (intro conjI allI impI)
  fix ids s'
  assume a: "search_popular_videos fuel yt pa max_results s = Some (ids, s')"
  from search_popular_videos_run[OF a] obtain reqs res s1 where
    l: "search_loop fuel yt pa max_results 0 ([], [], None, 0) (say Write_searching s) = Some (res, s1)"
    and c: "calls s' = calls s @ map Search_call reqs" and n: "length reqs \<le> fuel"
    and e: "reqs = expected_requests pa max_results 0 None (pages_from yt 0 reqs)"
    and q: "\<forall>j < length reqs.
         length (concat (map page_items (take j (pages_from yt 0 reqs)))) < max_results"
    and r: "loop_result max_results ([], [], None, 0) (pages_from yt 0 reqs) res"
    and i: "ids = (case res of Inl e \<Rightarrow> [] | Inr st \<Rightarrow> fst (snd st))"
    by blast
  let ?ps = "pages_from yt 0 reqs"
  let ?sc = "scanned_items max_results ?ps"
  have 1: "length ?sc \<le> max_results" by (simp add: scanned_items_def)
  have "card (channel_of ` set ?sc) \<le> card (set ?sc)" by (simp add: card_image_le)
  also have "\<dots> \<le> length ?sc" by (rule card_length)
  finally have 2: "card (channel_of ` set ?sc) \<le> max_results" using 1 by simp
  have 3: "\<forall>st. res = Inr st \<longrightarrow> length ids = card (channel_of ` set ?sc)"
  proof (intro allI impI)
    fix st assume "res = Inr st"
    with i r loop_result_Inr(2)[of max_results ?ps st]
    have "ids = add_all (map channel_of ?sc) []" by simp
    then show "length ids = card (channel_of ` set ?sc)" by (simp add: length_add_all_Nil)
  qed
  have 4: "length ids \<le> card (channel_of ` set ?sc)"
    using i 3 by (cases res) simp_all
  have 5: "\<forall>j < length reqs.
           length (concat (map page_items (take j ?ps))) < max_results \<and>
           reqs ! j =
             \<lparr>publishedAfter = pa,
              maxResults = min MAX_VIDEO_RESULTS_PER_PAGE
                 (max_results - length (concat (map page_items (take j ?ps)))),
              pageToken = (if j = 0 then None else page_token (?ps ! (j - 1)))\<rparr>"
  proof (intro allI impI)
    fix j assume j: "j < length reqs"
    then have "j < length ?ps" by simp
    from expected_requests_nth[OF this, of pa max_results 0 None] e q j
    show "length (concat (map page_items (take j ?ps))) < max_results \<and>
           reqs ! j =
             \<lparr>publishedAfter = pa,
              maxResults = min MAX_VIDEO_RESULTS_PER_PAGE
                 (max_results - length (concat (map page_items (take j ?ps)))),
              pageToken = (if j = 0 then None else page_token (?ps ! (j - 1)))\<rparr>"
      by simp
  qed
  have 6: "\<forall>st s1. search_loop fuel yt pa max_results 0 ([], [], None, 0) (say Write_searching s)
                    = Some (Inr st, s1) \<longrightarrow>
           fst st = map video_of ?sc \<and> results_fetched_of st = length ?sc \<and>
           fst (snd st) = ids \<and> length ids = card (channel_of ` set ?sc)"
  proof (intro allI impI)
    fix st s2
    assume "search_loop fuel yt pa max_results 0 ([], [], None, 0) (say Write_searching s)
                    = Some (Inr st, s2)"
    with l have res: "res = Inr st" by simp
    with r have "loop_result max_results ([], [], None, 0) ?ps (Inr st)" by simp
    note lr = loop_result_Inr[OF this]
    have li: "length ids = card (channel_of ` set ?sc)" using 3 res by blast
    have ii: "fst (snd st) = ids" using i res by simp
    from lr(1) lr(3) ii li
    show "fst st = map video_of ?sc \<and> results_fetched_of st = length ?sc \<and>
           fst (snd st) = ids \<and> length ids = card (channel_of ` set ?sc)"
      by blast
  qed
  from c n 1 2 4 5 6
  show "\<exists>reqs. calls s' = calls s @ map Search_call reqs \<and> length reqs \<le> fuel \<and>
        length (scanned_items max_results (pages_from yt 0 reqs)) \<le> max_results \<and>
        length ids \<le> card (channel_of ` set (scanned_items max_results (pages_from yt 0 reqs))) \<and>
        card (channel_of ` set (scanned_items max_results (pages_from yt 0 reqs))) \<le> max_results \<and>
        (\<forall>j < length reqs.
           length (concat (map page_items (take j (pages_from yt 0 reqs)))) < max_results \<and>
           reqs ! j =
             \<lparr>publishedAfter = pa,
              maxResults = min MAX_VIDEO_RESULTS_PER_PAGE
                 (max_results - length (concat (map page_items (take j (pages_from yt 0 reqs))))),
              pageToken = (if j = 0 then None else page_token (pages_from yt 0 reqs ! (j - 1)))\<rparr>) \<and>
        (\<forall>st s1. search_loop fuel yt pa max_results 0 ([], [], None, 0) (say Write_searching s)
                    = Some (Inr st, s1) \<longrightarrow>
           fst st = map video_of (scanned_items max_results (pages_from yt 0 reqs)) \<and>
           results_fetched_of st = length (scanned_items max_results (pages_from yt 0 reqs)) \<and>
           fst (snd st) = ids \<and>
           length ids = card (channel_of ` set (scanned_items max_results (pages_from yt 0 reqs))))"
    by blast
next
  assume a: "(\<forall>k req r. search_execute yt k req = Inr r \<longrightarrow>
        get_items r \<noteq> [] \<or> \<not> truthy (nextPageToken r)) \<and> max_results \<le> fuel"
  then have "max_results - results_fetched_of ([], [], None, 0) \<le> fuel"
    by (simp add: results_fetched_of_def)
  from search_loop_terminates[OF conjunct1[OF a] this, of pa 0 "say Write_searching s"]
  obtain res s1 where
    "search_loop fuel yt pa max_results 0 ([], [], None, 0) (say Write_searching s) = Some (res, s1)"
    by auto
  then show "\<exists>ids s'. search_popular_videos fuel yt pa max_results s = Some (ids, s')"
    by (cases res) (auto simp: search_popular_videos_def)
qed

theorem C6_at_most_max_results_witness:
  "search_popular_videos (Suc (Suc 0)) two_pages ''2023-10-15T22:13:20+00:00'' 10 io0 =
     Some ([''cA'', ''cB'', ''cC''],
           \<lparr>msgs = [Write_searching, Write_found 3],
            calls = [Search_call (request 10 None), Search_call (request 8 (Some ''t1''))]\<rparr>) \<and>
   (\<exists>reqs. map Search_call reqs =
              [Search_call (request 10 None), Search_call (request 8 (Some ''t1''))] \<and>
      length [''cA'', ''cB'', ''cC'']
        \<le> card (channel_of ` set (scanned_items 10 (pages_from two_pages 0 reqs))) \<and>
      card (channel_of ` set (scanned_items 10 (pages_from two_pages 0 reqs))) \<le> 10) \<and>
   (\<exists>ids s'. search_popular_videos 10 two_pages ''2023-10-15T22:13:20+00:00'' 10 io0 = Some (ids, s'))"
proof -
  note t = C6_at_most_max_results[of _ two_pages "''2023-10-15T22:13:20+00:00''" 10 io0]
  from conjunct1[OF t, of "Suc (Suc 0)"] two_pages_run
  obtain reqs where
    "calls \<lparr>msgs = [Write_searching, Write_found 3],
            calls = [Search_call (request 10 None), Search_call (request 8 (Some ''t1''))]\<rparr>
       = calls io0 @ map Search_call reqs"
    "length [''cA'', ''cB'', ''cC'']
        \<le> card (channel_of ` set (scanned_items 10 (pages_from two_pages 0 reqs)))"
    "card (channel_of ` set (scanned_items 10 (pages_from two_pages 0 reqs))) \<le> 10"
    by blast
  then have a: "\<exists>reqs. map Search_call reqs =
              [Search_call (request 10 None), Search_call (request 8 (Some ''t1''))] \<and>
      length [''cA'', ''cB'', ''cC'']
        \<le> card (channel_of ` set (scanned_items 10 (pages_from two_pages 0 reqs))) \<and>
      card (channel_of ` set (scanned_items 10 (pages_from two_pages 0 reqs))) \<le> 10"
    by (intro exI[of _ reqs]) (simp add: io0_def)
  have prog: "\<forall>k req r. search_execute two_pages k req = Inr r \<longrightarrow>
        get_items r \<noteq> [] \<or> \<not> truthy (nextPageToken r)"
    by (auto simp: two_pages_def get_items_def first_page_def second_page_def)
  from conjunct2[OF t, of 10] prog
  have b: "\<exists>ids s'. search_popular_videos 10 two_pages ''2023-10-15T22:13:20+00:00'' 10 io0 = Some (ids, s')"
    by simp
  from two_pages_run a b show ?thesis by (intro conjI)
qed

text \<open>
  Claim C7: in every run that returns, a request that raised can only be the last one;
  if a request raised, or a scanned item lacks a key, the result is the empty list and an
  error message is shown, whatever ids were collected before; otherwise the result is the
  set collected from the scanned items.  And when request number \<open>k\<close> raises whatever
  it asks, the search returns as soon as the fuel exceeds \<open>k\<close>.
\<close>

theorem C7_error_aborts_with_empty_result:
  "(\<forall>ids s'. search_popular_videos fuel yt pa max_results s = Some (ids, s') \<longrightarrow>
      (\<exists>reqs. calls s' = calls s @ map Search_call reqs \<and>
         (\<forall>p \<in> set (butlast (pages_from yt 0 reqs)). \<not> isl p) \<and>
         ((\<exists>p \<in> set (pages_from yt 0 reqs). isl p) \<or>
          (\<exists>it \<in> set (scanned_items max_results (pages_from yt 0 reqs)). \<not> well_keyed it) \<longrightarrow>
            ids = [] \<and>
            (\<exists>e. msgs s' = msgs s @ Write_searching #
                    (if is_HttpError e then [Error_search_api e, Error_search_hint]
                     else [Error_search_unexpected e]))) \<and>
         ((\<forall>p \<in> set (pages_from yt 0 reqs). \<not> isl p) \<and>
          (\<forall>it \<in> set (scanned_items max_results (pages_from yt 0 reqs)). well_keyed it) \<longrightarrow>
            ids = add_all (map channel_of (scanned_items max_results (pages_from yt 0 reqs))) [] \<and>
            msgs s' = msgs s @ [Write_searching, Write_found (length ids)]))) \<and>
   ((\<forall>req. isl (search_execute yt k req)) \<and> k < fuel \<longrightarrow>
      (\<exists>ids s'. search_popular_videos fuel yt pa max_results s = Some (ids, s')))"
proof (intro conjI allI impI)
  fix ids s'
  assume a: "search_popular_videos fuel yt pa max_results s = Some (ids, s')"
  from search_popular_videos_run[OF a] obtain reqs res where
    c: "calls s' = calls s @ map Search_call reqs"
    and b: "\<forall>p \<in> set (butlast (pages_from yt 0 reqs)). \<not> isl p"
    and r: "loop_result max_results ([], [], None, 0) (pages_from yt 0 reqs) res"
    and i: "ids = (case res of Inl e \<Rightarrow> [] | Inr st \<Rightarrow> fst (snd st))"
    and m: "msgs s' = msgs s @ Write_searching #
        (case res of
           Inl e \<Rightarrow> (if is_HttpError e then [Error_search_api e, Error_search_hint]
                     else [Error_search_unexpected e])
         | Inr st \<Rightarrow> [Write_found (length ids)])"
    by blast
  let ?ps = "pages_from yt 0 reqs"
  let ?sc = "scanned_items max_results ?ps"
  note n = loop_result_normal[OF r]
  have bad: "(\<exists>p \<in> set ?ps. isl p) \<or> (\<exists>it \<in> set ?sc. \<not> well_keyed it) \<longrightarrow>
            ids = [] \<and>
            (\<exists>e. msgs s' = msgs s @ Write_searching #
                    (if is_HttpError e then [Error_search_api e, Error_search_hint]
                     else [Error_search_unexpected e]))"
  proof
    assume "(\<exists>p \<in> set ?ps. isl p) \<or> (\<exists>it \<in> set ?sc. \<not> well_keyed it)"
    with n have "\<not> (\<exists>st. res = Inr st)" by blast
    then obtain e where "res = Inl e" by (cases res) auto
    with i m show "ids = [] \<and>
            (\<exists>e. msgs s' = msgs s @ Write_searching #
                    (if is_HttpError e then [Error_search_api e, Error_search_hint]
                     else [Error_search_unexpected e]))"
      by auto
  qed
  have good: "(\<forall>p \<in> set ?ps. \<not> isl p) \<and> (\<forall>it \<in> set ?sc. well_keyed it) \<longrightarrow>
            ids = add_all (map channel_of ?sc) [] \<and>
            msgs s' = msgs s @ [Write_searching, Write_found (length ids)]"
  proof
    assume "(\<forall>p \<in> set ?ps. \<not> isl p) \<and> (\<forall>it \<in> set ?sc. well_keyed it)"
    with n obtain st where st: "res = Inr st" by blast
    with r have "loop_result max_results ([], [], None, 0) ?ps (Inr st)" by simp
    from loop_result_Inr(2)[OF this] st i m
    show "ids = add_all (map channel_of ?sc) [] \<and>
            msgs s' = msgs s @ [Write_searching, Write_found (length ids)]"
      by simp
  qed
  from c b bad good
  show "\<exists>reqs. calls s' = calls s @ map Search_call reqs \<and>
         (\<forall>p \<in> set (butlast (pages_from yt 0 reqs)). \<not> isl p) \<and>
         ((\<exists>p \<in> set (pages_from yt 0 reqs). isl p) \<or>
          (\<exists>it \<in> set (scanned_items max_results (pages_from yt 0 reqs)). \<not> well_keyed it) \<longrightarrow>
            ids = [] \<and>
            (\<exists>e. msgs s' = msgs s @ Write_searching #
                    (if is_HttpError e then [Error_search_api e, Error_search_hint]
                     else [Error_search_unexpected e]))) \<and>
         ((\<forall>p \<in> set (pages_from yt 0 reqs). \<not> isl p) \<and>
          (\<forall>it \<in> set (scanned_items max_results (pages_from yt 0 reqs)). well_keyed it) \<longrightarrow>
            ids = add_all (map channel_of (scanned_items max_results (pages_from yt 0 reqs))) [] \<and>
            msgs s' = msgs s @ [Write_searching, Write_found (length ids)])"
    by blast
next
  assume a: "(\<forall>req. isl (search_execute yt k req)) \<and> k < fuel"
  then have "\<forall>req. isl (search_execute yt (0 + k) req)" "k < fuel" by simp_all
  from search_loop_returns_on_error[OF this, of pa max_results "([], [], None, 0)"
         "say Write_searching s"]
  obtain res s1 where
    "search_loop fuel yt pa max_results 0 ([], [], None, 0) (say Write_searching s) = Some (res, s1)"
    by auto
  then show "\<exists>ids s'. search_popular_videos fuel yt pa max_results s = Some (ids, s')"
    by (cases res) (auto simp: search_popular_videos_def)
qed

theorem C7_error_aborts_with_empty_result_witness:
  "search_popular_videos (Suc (Suc 0)) second_call_fails ''2023-10-15T22:13:20+00:00'' 10 io0 =
     Some ([],
           \<lparr>msgs = [Write_searching, Error_search_api (HttpError ''quotaExceeded''),
                    Error_search_hint],
            calls = [Search_call (request 10 None), Search_call (request 8 (Some ''t1''))]\<rparr>) \<and>
   (\<exists>p \<in> set (pages_from second_call_fails 0 [request 10 None, request 8 (Some ''t1'')]). isl p) \<and>
   (\<exists>e. [Write_searching, Error_search_api (HttpError ''quotaExceeded''), Error_search_hint] =
          Write_searching # (if is_HttpError e then [Error_search_api e, Error_search_hint]
                             else [Error_search_unexpected e])) \<and>
   (\<exists>ids s'. search_popular_videos 7 second_call_fails ''2023-10-15T22:13:20+00:00'' 500 io0 = Some (ids, s'))"
proof -
  note t = C7_error_aborts_with_empty_result[of _ second_call_fails "''2023-10-15T22:13:20+00:00''" _ io0]
  from conjunct1[OF t, of "Suc (Suc 0)" 10] second_call_fails_run
  obtain reqs where
    c: "calls \<lparr>msgs = [Write_searching, Error_search_api (HttpError ''quotaExceeded''),
                      Error_search_hint],
              calls = [Search_call (request 10 None), Search_call (request 8 (Some ''t1''))]\<rparr>
         = calls io0 @ map Search_call reqs"
    and imp: "(\<exists>p \<in> set (pages_from second_call_fails 0 reqs). isl p) \<or>
          (\<exists>it \<in> set (scanned_items 10 (pages_from second_call_fails 0 reqs)). \<not> well_keyed it) \<longrightarrow>
            ([]::string list) = [] \<and>
            (\<exists>e. msgs \<lparr>msgs = [Write_searching, Error_search_api (HttpError ''quotaExceeded''),
                              Error_search_hint],
                      calls = [Search_call (request 10 None),
                               Search_call (request 8 (Some ''t1''))]\<rparr>
                  = msgs io0 @ Write_searching #
                    (if is_HttpError e then [Error_search_api e, Error_search_hint]
                     else [Error_search_unexpected e]))"
    by blast
  from c have reqs: "reqs = [request 10 None, request 8 (Some ''t1'')]"
    by (auto simp: io0_def map_eq_Cons_conv)
  have p: "\<exists>p \<in> set (pages_from second_call_fails 0 [request 10 None, request 8 (Some ''t1'')]). isl p"
    by (simp add: second_call_fails_def)
  have p': "\<exists>p \<in> set (pages_from second_call_fails 0 reqs). isl p"
    unfolding reqs by (rule p)
  have "([]::string list) = [] \<and>
            (\<exists>e. msgs \<lparr>msgs = [Write_searching, Error_search_api (HttpError ''quotaExceeded''),
                              Error_search_hint],
                      calls = [Search_call (request 10 None),
                               Search_call (request 8 (Some ''t1''))]\<rparr>
                  = msgs io0 @ Write_searching #
                    (if is_HttpError e then [Error_search_api e, Error_search_hint]
                     else [Error_search_unexpected e]))"
    by (rule mp[OF imp disjI1[OF p']])
  then have m: "\<exists>e. [Write_searching, Error_search_api (HttpError ''quotaExceeded''), Error_search_hint] =
          Write_searching # (if is_HttpError e then [Error_search_api e, Error_search_hint]
                             else [Error_search_unexpected e])"
    by (simp add: io0_def)
  have e: "\<forall>req. isl (search_execute second_call_fails 1 req)"
    by (simp add: second_call_fails_def)
  from conjunct2[OF t, of 1 7 500] e
  have b: "\<exists>ids s'. search_popular_videos 7 second_call_fails ''2023-10-15T22:13:20+00:00'' 500 io0 = Some (ids, s')"
    by simp
  from second_call_fails_run p m b show ?thesis by (intro conjI)
qed

section \<open>Channel Detail Fetcher: decoding one item\<close>

lemma decode_item_Appended:
  assumes "decode_item isoparse item = Appended r"
  shows "\<exists>t sc vc nc.
           parse_published_at isoparse (sn_publishedAt (get_snippet item)) = Inr t \<and>
           subscriber_count_int (subscriberCount (get_statistics item)) = Inr sc \<and>
           int_or_0 (viewCount (get_statistics item)) = Inr vc \<and>
           int_or_0 (videoCount (get_statistics item)) = Inr nc \<and>
           r = \<lparr>channel_id = item_id item,
                channel_name = sn_title (get_snippet item),
                description = sn_description (get_snippet item),
                published_at_str = sn_publishedAt (get_snippet item),
                published_at = t,
                subscriber_count = sc,
                view_count = vc,
                video_count = nc,
                hidden_subscriber_count =
                  (case hiddenSubscriberCount (get_statistics item) of
                     None \<Rightarrow> False | Some b \<Rightarrow> b)\<rparr>"
proof (cases "parse_published_at isoparse (sn_publishedAt (get_snippet item))")
  case (Inl e)
  with assms show ?thesis
    by (cases e) (simp_all add: decode_item_def Let_def)
next
  case t: (Inr t)
  show ?thesis
  proof (cases "subscriber_count_int (subscriberCount (get_statistics item))")
    case (Inl e)
    with assms t show ?thesis by (simp add: decode_item_def Let_def)
  next
    case sc: (Inr sc)
    show ?thesis
    proof (cases "int_or_0 (viewCount (get_statistics item))")
      case (Inl e)
      with assms t sc show ?thesis by (simp add: decode_item_def Let_def)
    next
      case vc: (Inr vc)
      show ?thesis
      proof (cases "int_or_0 (videoCount (get_statistics item))")
        case (Inl e)
        with assms t sc vc show ?thesis by (simp add: decode_item_def Let_def)
      next
        case (Inr nc)
        with assms t sc vc show ?thesis by (simp add: decode_item_def Let_def)
      qed
    qed
  qed
qed

lemma decode_hidden_with_count:
  "decode_item sample_isoparse hidden_with_count = Appended record_of_hidden_with_count"
  by (simp add: decode_item_def hidden_with_count_def record_of_hidden_with_count_def
        get_snippet_def get_statistics_def parse_published_at_def truthy_def sample_isoparse_def
        subscriber_count_int_def int_or_0_def py_int_eval)

lemma decode_hidden_without_count:
  "decode_item sample_isoparse hidden_without_count = Appended record_of_hidden_without_count"
  by (simp add: decode_item_def hidden_without_count_def record_of_hidden_without_count_def
        get_snippet_def get_statistics_def parse_published_at_def truthy_def sample_isoparse_def
        subscriber_count_int_def int_or_0_def py_int_eval)

text \<open>
  What line 156 stores: 0 when the item carries no subscriber count (the key is missing
  or its string is empty), and otherwise the integer that the transmitted string denotes.
  The hidden flag is stored beside it (false when missing) and is not read for the count.
\<close>

lemma stored_subscriber_count:
  "decode_item isoparse item = Appended r \<Longrightarrow>
     (\<not> truthy (subscriberCount (get_statistics item)) \<longrightarrow> subscriber_count r = 0) \<and>
     (truthy (subscriberCount (get_statistics item)) \<longrightarrow>
        py_int (the (subscriberCount (get_statistics item))) = Inr (subscriber_count r)) \<and>
     hidden_subscriber_count r = (hiddenSubscriberCount (get_statistics item) = Some True)"
proof -
  assume "decode_item isoparse item = Appended r"
  from decode_item_Appended[OF this] obtain sc where
    sc: "subscriber_count_int (subscriberCount (get_statistics item)) = Inr sc"
    and r: "subscriber_count r = sc"
       "hidden_subscriber_count r =
          (case hiddenSubscriberCount (get_statistics item) of None \<Rightarrow> False | Some b \<Rightarrow> b)"
    by auto
  from sc r show ?thesis
    by (auto simp: subscriber_count_int_def split: option.splits if_splits)
qed

text \<open>
  Claim C3: if the platform marks the subscriber count as hidden, the stored subscriber
  count is 0.  The comment of line 156 says so (a hidden count is treated as 0), but the
  line tests the transmitted count only and never the flag of line 167: the item
  \<open>hidden_with_count\<close>, which carries the flag together with the count \<^verbatim>\<open>'123'\<close>, is
  decoded to a record that is marked hidden and has the subscriber count 123.
\<close>

theorem C3_hidden_flag_keeps_count:
  "hiddenSubscriberCount (get_statistics hidden_with_count) = Some True \<and>
   subscriberCount (get_statistics hidden_with_count) = Some ''123'' \<and>
   decode_item sample_isoparse hidden_with_count = Appended record_of_hidden_with_count \<and>
   hidden_subscriber_count record_of_hidden_with_count \<and>
   subscriber_count record_of_hidden_with_count = 123 \<and>
   subscriber_count record_of_hidden_with_count \<noteq> 0"
  by (simp add: decode_hidden_with_count)
     (simp add: hidden_with_count_def get_statistics_def record_of_hidden_with_count_def)

section \<open>Channel Detail Fetcher: the batches\<close>

lemma decode_items_eq:
  "decode_items isoparse items (channel_data, s) =
     (first_raise isoparse items, channel_data @ kept_records isoparse items,
      s\<lparr>msgs := msgs s @ skip_warnings isoparse items\<rparr>)"
proof (induction items arbitrary: channel_data s)
  case Nil
  show ?case
    by (simp add: first_raise_def kept_records_def skip_warnings_def outcomes_def)
next
  case (Cons item items)
  show ?case
  proof (cases "decode_item isoparse item")
    case (Appended r)
    then show ?thesis
      using Cons.IH[of "channel_data @ [r]" s]
      by (simp add: first_raise_def kept_records_def skip_warnings_def outcomes_def)
  next
    case (Skipped w)
    then show ?thesis
      using Cons.IH[of channel_data "say w s"]
      by (simp add: first_raise_def kept_records_def skip_warnings_def outcomes_def say_def)
  next
    case (Raised e)
    then show ?thesis
      by (simp add: first_raise_def kept_records_def skip_warnings_def outcomes_def)
  qed
qed

lemma batch_failed_eq:
  "batch_failed i n e s =
     s\<lparr>msgs := msgs s @ (if is_HttpError e then [Error_channels_api (i + 1) (i + n) e,
                                                   Error_channels_hint]
                           else [Error_channels_unexpected e])\<rparr>"
  by (simp add: batch_failed_def say_def)

lemma fetch_batch_eq:
  "fetch_batch isoparse yt channel_ids (channel_data, s) i =
     (channel_data @ batch_records isoparse yt channel_ids i,
      s\<lparr>msgs := msgs s @ batch_msgs isoparse yt channel_ids i,
        calls := calls s @ [Channels_call (join '','' (batch_ids_at channel_ids i))]\<rparr>)"
proof (cases "batch_response yt channel_ids i")
  case (Inl e)
  then show ?thesis
    by (simp add: fetch_batch_def Let_def batch_records_def batch_msgs_def batch_error_def
          batch_items_def batch_response_def batch_ids_at_def batch_failed_eq say_def call_def
          kept_records_def skip_warnings_def outcomes_def)
next
  case (Inr r)
  show ?thesis
  proof (cases "first_raise isoparse (batch_items yt channel_ids i)")
    case None
    with Inr show ?thesis
      by (simp add: fetch_batch_def Let_def batch_records_def batch_msgs_def batch_error_def
            batch_items_def batch_response_def batch_ids_at_def say_def call_def
            decode_items_eq)
  next
    case (Some e)
    with Inr show ?thesis
      by (simp add: fetch_batch_def Let_def batch_records_def batch_msgs_def batch_error_def
            batch_items_def batch_response_def batch_ids_at_def batch_failed_eq say_def call_def
            decode_items_eq)
  qed
qed

lemma foldl_fetch_batch:
  "foldl (fetch_batch isoparse yt channel_ids) (channel_data, s) starts =
     (channel_data @ concat (map (batch_records isoparse yt channel_ids) starts),
      s\<lparr>msgs := msgs s @ concat (map (batch_msgs isoparse yt channel_ids) starts),
        calls := calls s
           @ map (\<lambda>i. Channels_call (join '','' (batch_ids_at channel_ids i))) starts\<rparr>)"
proof (induction starts arbitrary: channel_data s)
  case Nil
  show ?case by simp
next
  case (Cons i starts)
  show ?case
    by (simp add: fetch_batch_eq Cons.IH)
qed

lemma get_channel_details_eq:
  "get_channel_details isoparse yt channel_ids s =
     (concat (map (batch_records isoparse yt channel_ids)
                (range_step (length channel_ids) MAX_CHANNELS_TO_FETCH_PER_CALL)),
      s\<lparr>msgs := msgs s @ concat (map (batch_msgs isoparse yt channel_ids)
                (range_step (length channel_ids) MAX_CHANNELS_TO_FETCH_PER_CALL)),
        calls := calls s
           @ map (\<lambda>i. Channels_call (join '','' (batch_ids_at channel_ids i)))
               (range_step (length channel_ids) MAX_CHANNELS_TO_FETCH_PER_CALL)\<rparr>)"
  unfolding get_channel_details_def by (simp add: foldl_fetch_batch)

lemma first_raise_None:
  assumes "first_raise isoparse items = None"
  shows "outcomes isoparse items = map (decode_item isoparse) items"
proof (cases "dropWhile (\<lambda>x. \<not> is_Raised x) (map (decode_item isoparse) items)")
  case Nil
  then show ?thesis
    by (simp add: outcomes_def takeWhile_eq_all_conv)
next
  case (Cons x xs)
  then have "is_Raised x"
    using hd_dropWhile[of "\<lambda>x. \<not> is_Raised x" "map (decode_item isoparse) items"] by simp
  then obtain e where "x = Raised e" by (cases x) simp_all
  with Cons assms show ?thesis by (simp add: first_raise_def)
qed

lemma decode_bad_view_count:
  "decode_item sample_isoparse bad_view_count = Raised (ValueError ''x'')"
  by (simp add: decode_item_def bad_view_count_def
        get_snippet_def get_statistics_def parse_published_at_def truthy_def sample_isoparse_def
        subscriber_count_int_def int_or_0_def py_int_eval)

lemma range_step_examples:
  "range_step 2 50 = [0]" "range_step 51 50 = [0, 50]" "range_step 100 50 = [0, 50]"
  "range_step 0 50 = []"
  by (simp_all add: range_step_def upt_rec)

text \<open>
  Claim C8, as stated: a batch-level error causes that batch's records to be omitted, so
  the returned list holds exactly the successful batches' records.  The handlers of a
  batch (lines 169 to 176) also catch what the decoding of an item raises, and the
  records appended before that item stay in \<^verbatim>\<open>channel_data\<close>: here the only batch
  fails at its second item (\<^verbatim>\<open>int('x')\<close>), the error is reported, and the record of
  its first item is returned.
\<close>

theorem C8_partial_batch_kept:
  "get_channel_details sample_isoparse half_bad_service [''UC1'', ''UC2''] io0 =
     ([record_of_hidden_with_count],
      \<lparr>msgs = [Write_fetching 1 2 2, Error_channels_unexpected (ValueError ''x'')],
       calls = [Channels_call ''UC1,UC2'']\<rparr>)"
proof -
  have l: "range_step (length [''UC1'', ''UC2'']) MAX_CHANNELS_TO_FETCH_PER_CALL = [0]"
    by (simp add: range_step_def MAX_CHANNELS_TO_FETCH_PER_CALL_def)
  show ?thesis
    unfolding get_channel_details_def l
    by (simp add: MAX_CHANNELS_TO_FETCH_PER_CALL_def
          fetch_batch_def half_bad_service_def io0_def say_def call_def batch_failed_def
          decode_hidden_with_count decode_bad_view_count)
qed

text \<open>
  Claim C8, amended: the returned list is the concatenation, in batch order, of what each
  batch leaves: nothing when its request raises, and otherwise the records of its items
  up to the first item whose decoding raises (all its decoded records when none does).
  Every batch is requested whatever happened to the batches before it, and a batch that
  ends in an exception shows the error message of its handler.
\<close>

theorem C8_batches_contribute_until_first_raise:
  "fst (get_channel_details isoparse yt channel_ids s) =
     concat (map (batch_records isoparse yt channel_ids)
               (range_step (length channel_ids) MAX_CHANNELS_TO_FETCH_PER_CALL)) \<and>
   msgs (snd (get_channel_details isoparse yt channel_ids s)) =
     msgs s @ concat (map (batch_msgs isoparse yt channel_ids)
               (range_step (length channel_ids) MAX_CHANNELS_TO_FETCH_PER_CALL)) \<and>
   calls (snd (get_channel_details isoparse yt channel_ids s)) =
     calls s @ map (\<lambda>i. Channels_call (join '','' (batch_ids_at channel_ids i)))
               (range_step (length channel_ids) MAX_CHANNELS_TO_FETCH_PER_CALL) \<and>
   (\<forall>e. batch_response yt channel_ids i = Inl e \<longrightarrow>
        batch_records isoparse yt channel_ids i = [] \<and>
        batch_error isoparse yt channel_ids i = Some e) \<and>
   (batch_error isoparse yt channel_ids i = None \<longrightarrow>
        batch_records isoparse yt channel_ids i =
          [r. Appended r \<leftarrow> map (decode_item isoparse) (batch_items yt channel_ids i)]) \<and>
   (\<forall>e. batch_error isoparse yt channel_ids i = Some e \<longrightarrow>
        (if is_HttpError e
         then Error_channels_api (i + 1) (i + length (batch_ids_at channel_ids i)) e
         else Error_channels_unexpected e) \<in> set (batch_msgs isoparse yt channel_ids i))"
proof -
  have a: "\<forall>e. batch_response yt channel_ids i = Inl e \<longrightarrow>
        batch_records isoparse yt channel_ids i = [] \<and>
        batch_error isoparse yt channel_ids i = Some e"
    by (simp add: batch_records_def batch_items_def batch_error_def kept_records_def outcomes_def)
  have b: "batch_error isoparse yt channel_ids i = None \<longrightarrow>
        batch_records isoparse yt channel_ids i =
          [r. Appended r \<leftarrow> map (decode_item isoparse) (batch_items yt channel_ids i)]"
  proof
    assume n: "batch_error isoparse yt channel_ids i = None"
    then have "first_raise isoparse (batch_items yt channel_ids i) = None"
      by (cases "batch_response yt channel_ids i") (simp_all add: batch_error_def)
    from first_raise_None[OF this]
    show "batch_records isoparse yt channel_ids i =
          [r. Appended r \<leftarrow> map (decode_item isoparse) (batch_items yt channel_ids i)]"
      by (simp add: batch_records_def kept_records_def)
  qed
  have c: "\<forall>e. batch_error isoparse yt channel_ids i = Some e \<longrightarrow>
        (if is_HttpError e
         then Error_channels_api (i + 1) (i + length (batch_ids_at channel_ids i)) e
         else Error_channels_unexpected e) \<in> set (batch_msgs isoparse yt channel_ids i)"
    by (simp add: batch_msgs_def)
  show ?thesis
    using a b c by (simp add: get_channel_details_eq)
qed

theorem C8_batches_contribute_until_first_raise_witness:
  "batch_response flaky_service fifty_one_ids 0 = Inl (HttpError ''quotaExceeded'') \<and>
   batch_error sample_isoparse flaky_service fifty_one_ids 50 = None \<and>
   fst (get_channel_details sample_isoparse flaky_service fifty_one_ids io0) =
     [record_of_hidden_without_count] \<and>
   Error_channels_api 1 50 (HttpError ''quotaExceeded'')
     \<in> set (batch_msgs sample_isoparse flaky_service fifty_one_ids 0)"
proof -
  have l: "length fifty_one_ids = 51" by (simp add: fifty_one_ids_def)
  have r0: "batch_response flaky_service fifty_one_ids 0 = Inl (HttpError ''quotaExceeded'')"
    by (simp add: batch_response_def flaky_service_def MAX_CHANNELS_TO_FETCH_PER_CALL_def)
  have r50: "batch_response flaky_service fifty_one_ids 50 =
               Inr \<lparr>channels_items = Some [hidden_without_count]\<rparr>"
    by (simp add: batch_response_def flaky_service_def MAX_CHANNELS_TO_FETCH_PER_CALL_def)
  have i50: "batch_items flaky_service fifty_one_ids 50 = [hidden_without_count]"
    by (simp add: batch_items_def r50)
  have e50: "batch_error sample_isoparse flaky_service fifty_one_ids 50 = None"
    by (simp add: batch_error_def r50 i50 first_raise_def decode_hidden_without_count)
  have n0: "length (batch_ids_at fifty_one_ids 0) = 50"
    by (simp add: batch_ids_at_def fifty_one_ids_def MAX_CHANNELS_TO_FETCH_PER_CALL_def)
  note t0 = C8_batches_contribute_until_first_raise
              [of sample_isoparse flaky_service fifty_one_ids io0 0]
  note t50 = C8_batches_contribute_until_first_raise
              [of sample_isoparse flaky_service fifty_one_ids io0 50]
  have b0: "batch_records sample_isoparse flaky_service fifty_one_ids 0 = []"
    and be0: "batch_error sample_isoparse flaky_service fifty_one_ids 0
                = Some (HttpError ''quotaExceeded'')"
    using t0 r0 by simp_all
  have b50: "batch_records sample_isoparse flaky_service fifty_one_ids 50
               = [record_of_hidden_without_count]"
    using t50 e50 by (simp add: i50 decode_hidden_without_count)
  have m: "Error_channels_api 1 50 (HttpError ''quotaExceeded'')
     \<in> set (batch_msgs sample_isoparse flaky_service fifty_one_ids 0)"
    using t0 be0 n0 by simp
  have "fst (get_channel_details sample_isoparse flaky_service fifty_one_ids io0) =
     [record_of_hidden_without_count]"
    using t0 by (simp add: l range_step_examples MAX_CHANNELS_TO_FETCH_PER_CALL_def b0 b50)
  with r0 e50 m show ?thesis by simp
qed

section \<open>Filter and rank: the filter\<close>

lemma map_rec_new_channels_df:
  "map rec (new_channels_df cutoff df) =
     filter (\<lambda>r. case published_at r of None \<Rightarrow> False | Some t \<Rightarrow> cutoff \<le> t) df"
  unfolding new_channels_df_def add_is_new_def dropna_published_at_def
  by (induction df) (auto split: option.splits)

text \<open>
  Claim C1: a record with creation timestamp \<open>T\<close> survives the filter if and only if
  it is among the input and \<open>C \<le> T\<close>; a record without a timestamp never survives;
  every surviving row has \<^verbatim>\<open>is_new\<close> set, and the surviving records are the input's,
  in order, that have a timestamp not before the cutoff.  An item whose timestamp string
  does not parse leaves no record at all: the fetcher skips it with a warning.
\<close>

theorem C1_survives_iff_not_before_cutoff:
  "(published_at r = Some T \<longrightarrow>
      (r \<in> rec ` set (new_channels_df C df) \<longleftrightarrow> r \<in> set df \<and> C \<le> T)) \<and>
   (published_at r = None \<longrightarrow> r \<notin> rec ` set (new_channels_df C df)) \<and>
   (\<forall>x \<in> set (new_channels_df C df). is_new x) \<and>
   map rec (new_channels_df C df) =
     filter (\<lambda>r. \<exists>T. published_at r = Some T \<and> C \<le> T) df \<and>
   (\<forall>str m. sn_publishedAt (get_snippet item) = Some str \<and> str \<noteq> [] \<and>
            isoparse str = Inl (ValueError m) \<longrightarrow>
      decode_item isoparse item = Skipped (Warning_date_parse str (item_id item)))"
proof -
  have eq: "(\<lambda>r. case published_at r of None \<Rightarrow> False | Some t \<Rightarrow> C \<le> t)
          = (\<lambda>r. \<exists>T. published_at r = Some T \<and> C \<le> T)"
    by (auto split: option.splits)
  have m: "map rec (new_channels_df C df) =
     filter (\<lambda>r. \<exists>T. published_at r = Some T \<and> C \<le> T) df"
    using map_rec_new_channels_df[of C df] by (simp only: eq)
  have s: "rec ` set (new_channels_df C df) = set (map rec (new_channels_df C df))"
    by simp
  have n: "\<forall>x \<in> set (new_channels_df C df). is_new x"
    by (simp add: new_channels_df_def)
  have u: "\<forall>str m. sn_publishedAt (get_snippet item) = Some str \<and> str \<noteq> [] \<and>
            isoparse str = Inl (ValueError m) \<longrightarrow>
      decode_item isoparse item = Skipped (Warning_date_parse str (item_id item))"
    by (simp add: decode_item_def parse_published_at_def truthy_def Let_def)
  have f: "(published_at r = Some T \<longrightarrow>
      (r \<in> rec ` set (new_channels_df C df) \<longleftrightarrow> r \<in> set df \<and> C \<le> T)) \<and>
   (published_at r = None \<longrightarrow> r \<notin> rec ` set (new_channels_df C df))"
    unfolding s m by auto
  from f n m u show ?thesis by blast
qed

theorem C1_survives_iff_not_before_cutoff_witness:
  "published_at (sample_record ''A'' (Some (days_ago 10)) 1000) = Some (days_ago 10) \<and>
   sample_record ''A'' (Some (days_ago 10)) 1000 \<in> set sample_df \<and>
   days_ago 30 \<le> days_ago 10 \<and>
   sample_record ''A'' (Some (days_ago 10)) 1000 \<in> rec ` set (new_channels_df (days_ago 30) sample_df) \<and>
   published_at (sample_record ''B'' (Some (days_ago 60)) 5000) = Some (days_ago 60) \<and>
   \<not> days_ago 30 \<le> days_ago 60 \<and>
   sample_record ''B'' (Some (days_ago 60)) 5000 \<notin> rec ` set (new_channels_df (days_ago 30) sample_df) \<and>
   published_at (sample_record ''D'' None 7) = None \<and>
   sample_record ''D'' None 7 \<notin> rec ` set (new_channels_df (days_ago 30) sample_df) \<and>
   sample_isoparse ''yesterday'' = Inl (ValueError ''yesterday'') \<and>
   decode_item sample_isoparse unparsable_timestamp =
     Skipped (Warning_date_parse ''yesterday'' (Some ''UC5''))"
proof -
  have a: "published_at (sample_record ''A'' (Some (days_ago 10)) 1000) = Some (days_ago 10)"
    and b: "published_at (sample_record ''B'' (Some (days_ago 60)) 5000) = Some (days_ago 60)"
    and d: "published_at (sample_record ''D'' None 7) = None"
    and i: "sample_record ''A'' (Some (days_ago 10)) 1000 \<in> set sample_df"
    by (simp_all add: sample_record_def sample_df_def)
  have le: "days_ago 30 \<le> days_ago 10" and nle: "\<not> days_ago 30 \<le> days_ago 60"
    by (simp_all add: days_ago_def)
  have p: "sample_isoparse ''yesterday'' = Inl (ValueError ''yesterday'')"
    by (simp add: sample_isoparse_def)
  have u: "sn_publishedAt (get_snippet unparsable_timestamp) = Some ''yesterday''"
    "item_id unparsable_timestamp = Some ''UC5''"
    by (simp_all add: unparsable_timestamp_def get_snippet_def)
  note t1 = C1_survives_iff_not_before_cutoff
              [of "sample_record ''A'' (Some (days_ago 10)) 1000" "days_ago 10" "days_ago 30"
                  sample_df unparsable_timestamp sample_isoparse]
  note t2 = C1_survives_iff_not_before_cutoff
              [of "sample_record ''B'' (Some (days_ago 60)) 5000" "days_ago 60" "days_ago 30"
                  sample_df unparsable_timestamp sample_isoparse]
  note t3 = C1_survives_iff_not_before_cutoff
              [of "sample_record ''D'' None 7" 0 "days_ago 30"
                  sample_df unparsable_timestamp sample_isoparse]
  from t1 a i le
  have s: "sample_record ''A'' (Some (days_ago 10)) 1000
             \<in> rec ` set (new_channels_df (days_ago 30) sample_df)"
    by simp
  from t2 b nle
  have m: "sample_record ''B'' (Some (days_ago 60)) 5000
             \<notin> rec ` set (new_channels_df (days_ago 30) sample_df)"
    by simp
  from t3 d
  have n: "sample_record ''D'' None 7 \<notin> rec ` set (new_channels_df (days_ago 30) sample_df)"
    by simp
  from t1 p u have k: "decode_item sample_isoparse unparsable_timestamp =
     Skipped (Warning_date_parse ''yesterday'' (Some ''UC5''))"
    by simp
  from a i le s b nle m d n p k show ?thesis by (intro conjI)
qed

text \<open>
  The scenario of the specification: with the cutoff 30 days ago, of the channels created
  10, 60 and 5 days ago the first and the third survive, in the input's order.
\<close>

lemma new_channels_df_scenario:
  "map rec (new_channels_df (days_ago 30) sample_df) =
     [sample_record ''A'' (Some (days_ago 10)) 1000, sample_record ''C'' (Some (days_ago 5)) 50]"
  by (simp add: map_rec_new_channels_df sample_df_def sample_record_def days_ago_def)

section \<open>An item without a creation timestamp\<close>

lemma set_dropna_published_at:
  "set (dropna_published_at df) = {r \<in> set df. published_at r \<noteq> None}"
  by (simp add: dropna_published_at_def)

lemma outcomes_append:
  "\<forall>y \<in> set pre. \<not> is_Raised (decode_item isoparse y) \<Longrightarrow>
     outcomes isoparse (pre @ rest) = map (decode_item isoparse) pre @ outcomes isoparse rest"
  unfolding outcomes_def map_append by (rule takeWhile_append2) auto

lemma outcomes_raised:
  "y \<in> set pre \<Longrightarrow> is_Raised (decode_item isoparse y) \<Longrightarrow>
     outcomes isoparse (pre @ rest) = outcomes isoparse pre"
  unfolding outcomes_def map_append
  by (rule takeWhile_append1[of "decode_item isoparse y"]) auto

lemma outcomes_all:
  "\<forall>y \<in> set pre. \<not> is_Raised (decode_item isoparse y) \<Longrightarrow>
     outcomes isoparse pre = map (decode_item isoparse) pre"
  using outcomes_append[of pre isoparse "[]"] by (simp add: outcomes_def)

lemma skip_warnings_snoc:
  assumes "\<forall>w. decode_item isoparse item \<noteq> Skipped w"
  shows "skip_warnings isoparse (pre @ [item]) = skip_warnings isoparse pre"
proof (cases "\<forall>y \<in> set pre. \<not> is_Raised (decode_item isoparse y)")
  case True
  have o: "outcomes isoparse [item] =
             (if is_Raised (decode_item isoparse item) then [] else [decode_item isoparse item])"
    by (simp add: outcomes_def)
  show ?thesis
    unfolding skip_warnings_def outcomes_append[OF True] outcomes_all[OF True] o
    using assms by (cases "decode_item isoparse item") simp_all
next
  case False
  then obtain y where "y \<in> set pre" "is_Raised (decode_item isoparse y)" by blast
  from outcomes_raised[OF this] show ?thesis by (simp add: skip_warnings_def)
qed

lemma kept_records_mid:
  assumes "\<forall>y \<in> set pre. \<not> is_Raised (decode_item isoparse y)"
    and "decode_item isoparse item = Appended r"
  shows "kept_records isoparse (pre @ item # post) =
           kept_records isoparse pre @ r # kept_records isoparse post"
proof -
  have o: "outcomes isoparse (item # post) = Appended r # outcomes isoparse post"
    using assms(2) by (simp add: outcomes_def)
  show ?thesis
    unfolding kept_records_def outcomes_append[OF assms(1)] outcomes_all[OF assms(1)] o
    by simp
qed

lemma batch_records_returned:
  "i \<in> set (range_step (length channel_ids) MAX_CHANNELS_TO_FETCH_PER_CALL) \<Longrightarrow>
     set (batch_records isoparse yt channel_ids i)
       \<subseteq> set (fst (get_channel_details isoparse yt channel_ids s))"
  by (auto simp: get_channel_details_eq)

lemma decode_item_no_timestamp:
  assumes "\<not> truthy (sn_publishedAt (get_snippet item))"
  shows "decode_item isoparse item =
     (case subscriber_count_int (subscriberCount (get_statistics item)) of
        Inl e \<Rightarrow> Raised e
      | Inr sc \<Rightarrow>
          (case int_or_0 (viewCount (get_statistics item)) of
             Inl e \<Rightarrow> Raised e
           | Inr vc \<Rightarrow>
               (case int_or_0 (videoCount (get_statistics item)) of
                  Inl e \<Rightarrow> Raised e
                | Inr nc \<Rightarrow>
                    Appended
                      \<lparr>channel_id = item_id item,
                       channel_name = sn_title (get_snippet item),
                       description = sn_description (get_snippet item),
                       published_at_str = sn_publishedAt (get_snippet item),
                       published_at = None,
                       subscriber_count = sc,
                       view_count = vc,
                       video_count = nc,
                       hidden_subscriber_count =
                         (case hiddenSubscriberCount (get_statistics item) of
                            None \<Rightarrow> False | Some b \<Rightarrow> b)\<rparr>)))"
  using assms by (simp add: decode_item_def parse_published_at_def Let_def)

lemma decode_no_timestamp:
  "decode_item sample_isoparse no_timestamp = Appended record_of_no_timestamp"
  by (simp add: decode_item_def no_timestamp_def record_of_no_timestamp_def
        get_snippet_def get_statistics_def parse_published_at_def truthy_def
        subscriber_count_int_def int_or_0_def py_int_eval)

lemma decode_no_timestamp_bad_view_count:
  "decode_item sample_isoparse no_timestamp_bad_view_count = Raised (ValueError ''x'')"
  by (simp add: decode_item_def no_timestamp_bad_view_count_def
        get_snippet_def get_statistics_def parse_published_at_def truthy_def
        subscriber_count_int_def int_or_0_def py_int_eval)

lemma range_step_one: "range_step (length [x]) MAX_CHANNELS_TO_FETCH_PER_CALL = [0]"
  by (simp add: range_step_def MAX_CHANNELS_TO_FETCH_PER_CALL_def)

lemma no_timestamp_service_run:
  "get_channel_details sample_isoparse no_timestamp_service [''UC4''] io0 =
     ([record_of_no_timestamp],
      \<lparr>msgs = [Write_fetching 1 1 1], calls = [Channels_call ''UC4'']\<rparr>)"
  unfolding get_channel_details_def range_step_one
  by (simp add: MAX_CHANNELS_TO_FETCH_PER_CALL_def fetch_batch_def no_timestamp_service_def
        io0_def say_def call_def decode_no_timestamp)

text \<open>
  Claim C10, as stated: an item whose creation-timestamp string is absent is not skipped,
  and a record without a creation timestamp is still appended to the output list.  The
  timestamp is not all that decides: the counts are converted after it (lines 156, 165
  and 166), and an \<^verbatim>\<open>int\<close> that raises there ends the batch.  Here both items of the
  answer lack the timestamp; the view count of the first is \<^verbatim>\<open>'x'\<close>; no record is
  appended for either of them, and the returned list is empty.
\<close>

theorem C10_bad_count_drops_record:
  "\<not> truthy (sn_publishedAt (get_snippet no_timestamp_bad_view_count)) \<and>
   \<not> truthy (sn_publishedAt (get_snippet no_timestamp)) \<and>
   decode_item sample_isoparse no_timestamp_bad_view_count = Raised (ValueError ''x'') \<and>
   get_channel_details sample_isoparse bad_count_service [''UC6'', ''UC4''] io0 =
     ([],
      \<lparr>msgs = [Write_fetching 1 2 2, Error_channels_unexpected (ValueError ''x'')],
       calls = [Channels_call ''UC6,UC4'']\<rparr>)"
proof -
  have l: "range_step (length [''UC6'', ''UC4'']) MAX_CHANNELS_TO_FETCH_PER_CALL = [0]"
    by (simp add: range_step_def MAX_CHANNELS_TO_FETCH_PER_CALL_def)
  have a: "\<not> truthy (sn_publishedAt (get_snippet no_timestamp_bad_view_count))"
    "\<not> truthy (sn_publishedAt (get_snippet no_timestamp))"
    by (simp_all add: no_timestamp_bad_view_count_def no_timestamp_def get_snippet_def truthy_def)
  have g: "get_channel_details sample_isoparse bad_count_service [''UC6'', ''UC4''] io0 =
     ([],
      \<lparr>msgs = [Write_fetching 1 2 2, Error_channels_unexpected (ValueError ''x'')],
       calls = [Channels_call ''UC6,UC4'']\<rparr>)"
    unfolding get_channel_details_def l
    by (simp add: MAX_CHANNELS_TO_FETCH_PER_CALL_def
          fetch_batch_def bad_count_service_def io0_def say_def call_def batch_failed_def
          decode_no_timestamp_bad_view_count)
  from a decode_no_timestamp_bad_view_count g show ?thesis by (intro conjI)
qed

text \<open>
  Claim C10, amended: an item of a batch's answer whose creation-timestamp string is absent
  (or empty) is never skipped, and the loop over the items shows no message for it.  It
  is decoded to a record exactly when its three counts convert, and raises otherwise.
  When it is decoded and no item before it in its batch raised, its record has no creation
  timestamp and is in the list that \<open>get_channel_details\<close> returns; the filter stage
  drops it: \<open>dropna_published_at\<close> removes just the records without a timestamp.
\<close>

theorem C10_absent_timestamp_kept_until_filter:
  assumes "i \<in> set (range_step (length channel_ids) MAX_CHANNELS_TO_FETCH_PER_CALL)"
    and "batch_items yt channel_ids i = pre @ item # post"
    and "\<not> truthy (sn_publishedAt (get_snippet item))"
  shows "(\<forall>w. decode_item isoparse item \<noteq> Skipped w) \<and>
     snd (snd (decode_items isoparse (pre @ [item]) (channel_data, s0))) =
       snd (snd (decode_items isoparse pre (channel_data, s0))) \<and>
     ((\<exists>r. decode_item isoparse item = Appended r) \<longleftrightarrow>
        (\<exists>a b c. subscriber_count_int (subscriberCount (get_statistics item)) = Inr a \<and>
                  int_or_0 (viewCount (get_statistics item)) = Inr b \<and>
                  int_or_0 (videoCount (get_statistics item)) = Inr c)) \<and>
     ((\<exists>r. decode_item isoparse item = Appended r) \<or>
      (\<exists>e. decode_item isoparse item = Raised e)) \<and>
     (\<forall>r. decode_item isoparse item = Appended r \<and>
           (\<forall>y \<in> set pre. \<not> is_Raised (decode_item isoparse y)) \<longrightarrow>
        published_at r = None \<and>
        r \<in> set (fst (get_channel_details isoparse yt channel_ids s)) \<and>
        r \<notin> set (dropna_published_at df) \<and>
        r \<notin> rec ` set (new_channels_df cutoff df)) \<and>
     set (dropna_published_at df) = {r \<in> set df. published_at r \<noteq> None}"
proof -
  note d = decode_item_no_timestamp[OF assms(3), of isoparse]
  have 1: "\<forall>w. decode_item isoparse item \<noteq> Skipped w"
    unfolding d by (simp split: sum.splits)
  have 2: "snd (snd (decode_items isoparse (pre @ [item]) (channel_data, s0))) =
       snd (snd (decode_items isoparse pre (channel_data, s0)))"
    by (simp add: decode_items_eq skip_warnings_snoc[OF 1])
  have 3: "(\<exists>r. decode_item isoparse item = Appended r) \<longleftrightarrow>
        (\<exists>a b c. subscriber_count_int (subscriberCount (get_statistics item)) = Inr a \<and>
                  int_or_0 (viewCount (get_statistics item)) = Inr b \<and>
                  int_or_0 (videoCount (get_statistics item)) = Inr c)"
    unfolding d by (auto split: sum.splits)
  have 4: "(\<exists>r. decode_item isoparse item = Appended r) \<or>
        (\<exists>e. decode_item isoparse item = Raised e)"
    using 1 by (cases "decode_item isoparse item") auto
  have 5: "\<forall>r. decode_item isoparse item = Appended r \<and>
           (\<forall>y \<in> set pre. \<not> is_Raised (decode_item isoparse y)) \<longrightarrow>
        published_at r = None \<and>
        r \<in> set (fst (get_channel_details isoparse yt channel_ids s)) \<and>
        r \<notin> set (dropna_published_at df) \<and>
        r \<notin> rec ` set (new_channels_df cutoff df)"
  proof (intro allI impI)
    fix r
    assume a: "decode_item isoparse item = Appended r \<and>
           (\<forall>y \<in> set pre. \<not> is_Raised (decode_item isoparse y))"
    from a have n: "published_at r = None"
      unfolding d by (auto split: sum.splits)
    have "r \<in> set (batch_records isoparse yt channel_ids i)"
      unfolding batch_records_def assms(2)
      using kept_records_mid[OF conjunct2[OF a] conjunct1[OF a], of post] by simp
    with batch_records_returned[OF assms(1), of isoparse yt s]
    have m: "r \<in> set (fst (get_channel_details isoparse yt channel_ids s))" by blast
    have f: "r \<notin> set (map rec (new_channels_df cutoff df))"
      unfolding map_rec_new_channels_df using n by simp
    from n m f show "published_at r = None \<and>
        r \<in> set (fst (get_channel_details isoparse yt channel_ids s)) \<and>
        r \<notin> set (dropna_published_at df) \<and>
        r \<notin> rec ` set (new_channels_df cutoff df)"
      by (simp add: set_dropna_published_at)
  qed
  have 6: "set (dropna_published_at df) = {r \<in> set df. published_at r \<noteq> None}"
    by (rule set_dropna_published_at)
  from 1 2 3 4 5 6 show ?thesis by (intro conjI)
qed

theorem C10_absent_timestamp_kept_until_filter_witness:
  "0 \<in> set (range_step (length [''UC4'']) MAX_CHANNELS_TO_FETCH_PER_CALL) \<and>
   batch_items no_timestamp_service [''UC4''] 0 = [] @ no_timestamp # [] \<and>
   \<not> truthy (sn_publishedAt (get_snippet no_timestamp)) \<and>
   decode_item sample_isoparse no_timestamp = Appended record_of_no_timestamp \<and>
   published_at record_of_no_timestamp = None \<and>
   get_channel_details sample_isoparse no_timestamp_service [''UC4''] io0 =
     ([record_of_no_timestamp],
      \<lparr>msgs = [Write_fetching 1 1 1], calls = [Channels_call ''UC4'']\<rparr>) \<and>
   record_of_no_timestamp
     \<in> set (fst (get_channel_details sample_isoparse no_timestamp_service [''UC4''] io0)) \<and>
   record_of_no_timestamp \<notin> set (dropna_published_at [record_of_no_timestamp])"
proof -
  have i: "0 \<in> set (range_step (length [''UC4'']) MAX_CHANNELS_TO_FETCH_PER_CALL)"
    unfolding range_step_one by simp
  have b: "batch_items no_timestamp_service [''UC4''] 0 = [] @ no_timestamp # []"
    by (simp add: batch_items_def batch_response_def no_timestamp_service_def)
  have t: "\<not> truthy (sn_publishedAt (get_snippet no_timestamp))"
    by (simp add: no_timestamp_def get_snippet_def truthy_def)
  note c = C10_absent_timestamp_kept_until_filter
             [OF i b t, of sample_isoparse "[]" io0 io0 "[record_of_no_timestamp]" 0]
  note k = conjunct1[OF conjunct2[OF conjunct2[OF conjunct2[OF conjunct2[OF c]]]]]
  from spec[OF k, of record_of_no_timestamp] decode_no_timestamp
  have r: "published_at record_of_no_timestamp = None \<and>
        record_of_no_timestamp
          \<in> set (fst (get_channel_details sample_isoparse no_timestamp_service [''UC4''] io0)) \<and>
        record_of_no_timestamp \<notin> set (dropna_published_at [record_of_no_timestamp]) \<and>
        record_of_no_timestamp \<notin> rec ` set (new_channels_df 0 [record_of_no_timestamp])"
    by simp
  from i b t decode_no_timestamp conjunct1[OF r] no_timestamp_service_run
       conjunct1[OF conjunct2[OF r]] conjunct1[OF conjunct2[OF conjunct2[OF r]]]
  show ?thesis by (intro conjI)
qed

section \<open>Presentation: the thousands separators\<close>

lemma nat_digits_chars: "c \<in> set (nat_digits n) \<Longrightarrow> is_digit c"
proof (induction n rule: nat_digits.induct)
  case (1 n)
  show ?case
  proof (cases "n < 10")
    case True
    with "1.prems" show ?thesis
      by (simp add: nat_digits.simps[of n] is_digit_def)
  next
    case False
    have "n mod 10 < 10" by simp
    then have "is_digit (char_of (48 + n mod 10))"
      by (simp add: is_digit_def)
    with False "1.prems" "1.IH" show ?thesis
      by (auto simp: nat_digits.simps[of n])
  qed
qed

lemma nat_digits_nonempty: "nat_digits n \<noteq> []"
  by (simp add: nat_digits.simps[of n])

lemma group3_chars: "set (group3 ds) \<subseteq> insert (CHR '','') (set ds)"
proof (induction ds rule: group3.induct)
  case (1 ds)
  show ?case
  proof (cases "length ds \<le> 3")
    case True
    then show ?thesis by (auto simp: group3.simps[of ds])
  next
    case False
    have "set (take (length ds - 3) ds) \<subseteq> set ds" "set (drop (length ds - 3) ds) \<subseteq> set ds"
      by (rule set_take_subset, rule set_drop_subset)
    with False "1.IH" show ?thesis
      by (auto simp: group3.simps[of ds])
  qed
qed

lemma group3_filter:
  "filter (\<lambda>c. c \<noteq> CHR '','') (group3 ds) = filter (\<lambda>c. c \<noteq> CHR '','') ds"
proof (induction ds rule: group3.induct)
  case (1 ds)
  show ?case
  proof (cases "length ds \<le> 3")
    case True
    then show ?thesis by (simp add: group3.simps[of ds])
  next
    case False
    have "filter (\<lambda>c. c \<noteq> CHR '','') (group3 ds)
        = filter (\<lambda>c. c \<noteq> CHR '','') (take (length ds - 3) ds)
          @ filter (\<lambda>c. c \<noteq> CHR '','') (drop (length ds - 3) ds)"
      using False "1.IH" by (simp add: group3.simps[of ds])
    also have "\<dots> = filter (\<lambda>c. c \<noteq> CHR '','') (take (length ds - 3) ds @ drop (length ds - 3) ds)"
      by (simp only: filter_append)
    finally show ?thesis by (simp only: append_take_drop_id)
  qed
qed

lemma is_digit_not_comma: "is_digit c \<Longrightarrow> c \<noteq> CHR '',''"
  by (auto simp: is_digit_def)

lemma nat_digits_filter: "filter (\<lambda>c. c \<noteq> CHR '','') (nat_digits n) = nat_digits n"
  by (rule filter_True) (auto dest: nat_digits_chars is_digit_not_comma)

lemma format_comma_digits:
  "filter (\<lambda>c. c \<noteq> CHR '','') (format_comma n) =
     (if n < 0 then ''-'' else []) @ nat_digits (nat \<bar>n\<bar>)"
  by (simp add: format_comma_def group3_filter nat_digits_filter)

lemma group3_commas:
  assumes "\<forall>c\<in>set ds. c \<noteq> CHR '',''" "i < length (group3 ds)"
  shows "(rev (group3 ds) ! i = CHR '','') = (i mod 4 = 3)"
  using assms
proof (induction ds arbitrary: i rule: group3.induct)
  case (1 ds)
  show ?case
  proof (cases "length ds \<le> 3")
    case True
    with "1.prems" have "i < 3" "rev ds ! i \<in> set ds"
      by (auto simp: group3.simps[of ds] intro: nth_mem[of i "rev ds", simplified])
    with True "1.prems" show ?thesis
      by (auto simp: group3.simps[of ds])
  next
    case False
    let ?a = "take (length ds - 3) ds" and ?b = "drop (length ds - 3) ds"
    have g: "rev (group3 ds) = rev ?b @ CHR '','' # rev (group3 ?a)"
      using False by (simp add: group3.simps[of ds])
    have lb: "length (rev ?b) = 3" using False by simp
    have nb: "\<forall>c\<in>set ?b. c \<noteq> CHR '',''" using "1.prems"(1) by (meson in_set_dropD)
    have na: "\<forall>c\<in>set ?a. c \<noteq> CHR '',''" using "1.prems"(1) by (meson in_set_takeD)
    consider "i < 3" | "i = 3" | "i > 3" by linarith
    then show ?thesis
    proof cases
      case 1
      then have "rev (group3 ds) ! i = rev ?b ! i" using g lb by (simp add: nth_append)
      moreover have "rev ?b ! i \<in> set ?b" using 1 lb by (metis nth_mem set_rev)
      ultimately show ?thesis using nb 1 by auto
    next
      case 2
      then show ?thesis using g lb by (simp add: nth_append)
    next
      case 3
      then have e: "rev (group3 ds) ! i = rev (group3 ?a) ! (i - 4)"
        using g lb by (simp add: nth_append nth_Cons')
      have "i - 4 < length (group3 ?a)"
        using "1.prems"(2) 3 False by (simp add: group3.simps[of ds])
      from "1.IH"[OF False na this] e 3 show ?thesis
        by (simp add: mod_if)
    qed
  qed
qed

lemma hidden_marker_not_number: "hidden_marker \<noteq> format_comma n"
proof
  assume h: "hidden_marker = format_comma n"
  have "hd hidden_marker \<in> set (format_comma n)"
    unfolding h using nat_digits_nonempty
    by (auto simp: format_comma_def group3.simps[of "nat_digits _"] intro!: hd_in_set)
  then have "hd hidden_marker = CHR ''-'' \<or> hd hidden_marker = CHR '','' \<or> is_digit (hd hidden_marker)"
    using group3_chars nat_digits_chars
    by (fastforce simp: format_comma_def split: if_splits)
  then show False
    by (simp add: hidden_marker_def is_digit_def)
qed

lemmas format_comma_eval = format_comma_def nat_digits.simps group3.simps char_of_eq_iff

lemma format_comma_examples:
  "format_comma 1234567 = ''1,234,567''"
  "format_comma (- 1000) = ''-1,000''"
  "format_comma 999 = ''999''"
  "format_comma 0 = ''0''"
  by (simp_all add: format_comma_eval)

lemma digit_char:
  assumes "d < 10"
  shows "is_digit (char_of (48 + d))" "digit_val (char_of (48 + d)) = d"
  using assms by (simp_all add: is_digit_def digit_val_def)

lemma digits_digit_char:
  "d < 10 \<Longrightarrow> digits prev acc (char_of (48 + d) # rest) = digits True (10 * acc + d) rest"
  by (simp only: digits.simps digit_char if_True)

lemma digits_nat_digits:
  "digits prev acc (nat_digits m @ rest) =
     digits True (acc * 10 ^ length (nat_digits m) + m) rest"
proof (induction m arbitrary: prev acc rest rule: nat_digits.induct)
  case (1 n)
  show ?case
  proof (cases "n < 10")
    case True
    then show ?thesis
      by (simp add: nat_digits.simps[of n] digits_digit_char mult.commute del: digits.simps)
  next
    case False
    have d: "n mod 10 < 10" by simp
    have e: "10 * (n div 10) + n mod 10 = n" by simp
    have "digits prev acc (nat_digits n @ rest) =
            digits prev acc (nat_digits (n div 10) @ char_of (48 + n mod 10) # rest)"
      using False by (simp add: nat_digits.simps[of n])
    also have "\<dots> = digits True (acc * 10 ^ length (nat_digits (n div 10)) + n div 10)
                        (char_of (48 + n mod 10) # rest)"
      using "1.IH"[OF False] by simp
    also have "\<dots> = digits True
        (10 * (acc * 10 ^ length (nat_digits (n div 10)) + n div 10) + n mod 10) rest"
      using d by (rule digits_digit_char)
    also have "10 * (acc * 10 ^ length (nat_digits (n div 10)) + n div 10) + n mod 10
             = acc * 10 ^ length (nat_digits n) + n"
      using False e by (simp add: nat_digits.simps[of n] algebra_simps)
    finally show ?thesis .
  qed
qed

lemma digits_of_nat_digits: "digits False 0 (nat_digits m) = Some m"
  using digits_nat_digits[of False 0 m "[]"] by simp

lemma strip_id:
  assumes "s \<noteq> []" "\<not> is_space (hd s)" "\<not> is_space (last s)"
  shows "strip s = s"
proof -
  from assms(1,2) have a: "dropWhile is_space s = s" by (cases s) simp_all
  from assms(1,3) have "dropWhile is_space (rev s) = rev s"
    by (cases "rev s") (simp_all add: last_rev[symmetric] hd_rev)
  with a show ?thesis by (simp add: strip_def)
qed

lemma is_digit_not_space: "is_digit c \<Longrightarrow> \<not> is_space c"
  by (auto simp: is_digit_def is_space_def)

lemma hd_nat_digits: "is_digit (hd (nat_digits m))"
  using nat_digits_chars[of "hd (nat_digits m)" m] nat_digits_nonempty[of m] by simp

lemma last_nat_digits: "is_digit (last (nat_digits m))"
  using nat_digits_chars[of "last (nat_digits m)" m] nat_digits_nonempty[of m] by simp

lemma py_int_nat_digits: "py_int (nat_digits m) = Inr (int m)"
proof -
  have s: "strip (nat_digits m) = nat_digits m"
    by (rule strip_id) (simp_all add: nat_digits_nonempty hd_nat_digits last_nat_digits is_digit_not_space)
  obtain c cs where c: "nat_digits m = c # cs"
    using nat_digits_nonempty[of m] by (cases "nat_digits m") auto
  with hd_nat_digits[of m] have "is_digit c" by simp
  then have "c \<noteq> CHR ''-''" "c \<noteq> CHR ''+''" by (auto simp: is_digit_def)
  moreover have "strip (c # cs) = c # cs" using s c by simp
  moreover have "digits False 0 (c # cs) = Some m" using digits_of_nat_digits[of m] c by simp
  ultimately show ?thesis
    by (simp add: py_int_def c del: digits.simps)
qed

lemma py_int_minus_nat_digits: "py_int (CHR ''-'' # nat_digits m) = Inr (- int m)"
proof -
  have "\<not> is_space (CHR ''-'')" by (simp add: is_space_def)
  then have "strip (CHR ''-'' # nat_digits m) = CHR ''-'' # nat_digits m"
    by (intro strip_id)
       (simp_all add: nat_digits_nonempty last_nat_digits is_digit_not_space)
  with digits_of_nat_digits[of m] show ?thesis
    by (simp add: py_int_def del: digits.simps)
qed

lemma py_int_format_comma:
  "py_int (filter (\<lambda>c. c \<noteq> CHR '','') (format_comma n)) = Inr n"
  by (simp add: format_comma_digits py_int_nat_digits py_int_minus_nat_digits)

lemma group3_hd: "ds \<noteq> [] \<Longrightarrow> group3 ds \<noteq> [] \<and> hd (group3 ds) = hd ds"
proof (induction ds rule: group3.induct)
  case (1 ds)
  show ?case
  proof (cases "length ds \<le> 3")
    case True
    with "1.prems" show ?thesis by (simp add: group3.simps[of ds])
  next
    case False
    then have ne: "take (length ds - 3) ds \<noteq> []" by auto
    from "1.IH"[OF False ne] False show ?thesis
      by (simp add: group3.simps[of ds] hd_take)
  qed
qed

lemma hd_nat_digits_nonzero: "m \<noteq> 0 \<Longrightarrow> hd (nat_digits m) \<noteq> CHR ''0''"
proof (induction m rule: nat_digits.induct)
  case (1 n)
  show ?case
  proof (cases "n < 10")
    case True
    with "1.prems" show ?thesis
      by (simp add: nat_digits.simps[of n] char_of_eq_iff)
  next
    case False
    then have "n div 10 \<noteq> 0" by simp
    from "1.IH"[OF False this] False show ?thesis
      by (simp add: nat_digits.simps[of n] nat_digits_nonempty)
  qed
qed

lemma group3_nat_digits_body:
  "(\<forall>c \<in> set (group3 (nat_digits m)). is_digit c \<or> c = CHR '','') \<and>
   is_digit (hd (group3 (nat_digits m))) \<and>
   (m \<noteq> 0 \<longrightarrow> hd (group3 (nat_digits m)) \<noteq> CHR ''0'') \<and>
   (m = 0 \<longrightarrow> group3 (nat_digits m) = ''0'') \<and>
   (\<forall>i < length (group3 (nat_digits m)).
      (rev (group3 (nat_digits m)) ! i = CHR '','') = (i mod 4 = 3))"
proof -
  let ?g = "group3 (nat_digits m)"
  have 1: "\<forall>c \<in> set ?g. is_digit c \<or> c = CHR '',''"
    using group3_chars[of "nat_digits m"] nat_digits_chars[of _ m] by auto
  have h: "hd ?g = hd (nat_digits m)"
    using group3_hd[OF nat_digits_nonempty[of m]] by simp
  have 2: "is_digit (hd ?g)" unfolding h by (rule hd_nat_digits)
  have 3: "m \<noteq> 0 \<longrightarrow> hd ?g \<noteq> CHR ''0''"
    unfolding h using hd_nat_digits_nonzero by blast
  have 4: "m = 0 \<longrightarrow> ?g = ''0''"
    by (simp add: format_comma_eval)
  have "\<forall>c\<in>set (nat_digits m). c \<noteq> CHR '',''"
    using nat_digits_chars is_digit_not_comma by blast
  then have 5: "\<forall>i < length ?g. (rev ?g ! i = CHR '','') = (i mod 4 = 3)"
    using group3_commas by blast
  from 1 2 3 4 5 show ?thesis by (intro conjI)
qed


text \<open>
  Claim C4: in every row, the subscriber cell is the hidden marker when the hidden flag
  is set, whatever the count.  Otherwise it is the count with thousands separators: it is
  not the marker; read without its commas by \<^verbatim>\<open>int\<close> it gives the count back; it is
  a minus sign, exactly for a negative count, and then a body of digits and commas that
  begins with a digit, has no leading zero (the count 0 is \<^verbatim>\<open>0\<close>) and, counted
  from the right, has its commas at exactly every fourth place.
\<close>

theorem C4_hidden_marker_or_grouped_count:
  assumes "t = subscribers_text (add_display_columns strftime x)"
    and "n = subscriber_count (rec x)"
  shows "(hidden_subscriber_count (rec x) \<longrightarrow> t = hidden_marker) \<and>
     (\<not> hidden_subscriber_count (rec x) \<longrightarrow>
        t \<noteq> hidden_marker \<and>
        py_int (filter (\<lambda>c. c \<noteq> CHR '','') t) = Inr n \<and>
        (\<exists>body. t = (if n < 0 then ''-'' else []) @ body \<and>
           (\<forall>c \<in> set body. is_digit c \<or> c = CHR '','') \<and>
           is_digit (hd body) \<and>
           (n \<noteq> 0 \<longrightarrow> hd body \<noteq> CHR ''0'') \<and>
           (n = 0 \<longrightarrow> body = ''0'') \<and>
           (\<forall>i < length body. (rev body ! i = CHR '','') = (i mod 4 = 3)))) \<and>
     source_row (add_display_columns strftime x) = x"
proof -
  have h: "hidden_subscriber_count (rec x) \<longrightarrow> t = hidden_marker"
    by (simp add: assms add_display_columns_def subscribers_cell_def)
  have s: "source_row (add_display_columns strftime x) = x"
    by (simp add: add_display_columns_def)
  have v: "\<not> hidden_subscriber_count (rec x) \<longrightarrow>
        t \<noteq> hidden_marker \<and>
        py_int (filter (\<lambda>c. c \<noteq> CHR '','') t) = Inr n \<and>
        (\<exists>body. t = (if n < 0 then ''-'' else []) @ body \<and>
           (\<forall>c \<in> set body. is_digit c \<or> c = CHR '','') \<and>
           is_digit (hd body) \<and>
           (n \<noteq> 0 \<longrightarrow> hd body \<noteq> CHR ''0'') \<and>
           (n = 0 \<longrightarrow> body = ''0'') \<and>
           (\<forall>i < length body. (rev body ! i = CHR '','') = (i mod 4 = 3)))"
  proof
    assume "\<not> hidden_subscriber_count (rec x)"
    then have t: "t = format_comma n"
      by (simp add: assms add_display_columns_def subscribers_cell_def)
    let ?b = "group3 (nat_digits (nat \<bar>n\<bar>))"
    have 1: "t \<noteq> hidden_marker"
      using hidden_marker_not_number[of n] t by simp
    have 2: "py_int (filter (\<lambda>c. c \<noteq> CHR '','') t) = Inr n"
      unfolding t by (rule py_int_format_comma)
    have 3: "t = (if n < 0 then ''-'' else []) @ ?b"
      unfolding t by (simp add: format_comma_def)
    have z: "(nat \<bar>n\<bar> \<noteq> 0) = (n \<noteq> 0)" by simp
    note b = group3_nat_digits_body[of "nat \<bar>n\<bar>", unfolded z]
    have 4: "n = 0 \<longrightarrow> ?b = ''0''"
      using conjunct1[OF conjunct2[OF conjunct2[OF conjunct2[OF b]]]] by simp
    from 3 conjunct1[OF b] conjunct1[OF conjunct2[OF b]]
         conjunct1[OF conjunct2[OF conjunct2[OF b]]] 4
         conjunct2[OF conjunct2[OF conjunct2[OF conjunct2[OF b]]]]
    have "\<exists>body. t = (if n < 0 then ''-'' else []) @ body \<and>
           (\<forall>c \<in> set body. is_digit c \<or> c = CHR '','') \<and>
           is_digit (hd body) \<and>
           (n \<noteq> 0 \<longrightarrow> hd body \<noteq> CHR ''0'') \<and>
           (n = 0 \<longrightarrow> body = ''0'') \<and>
           (\<forall>i < length body. (rev body ! i = CHR '','') = (i mod 4 = 3))"
      by (intro exI[of _ ?b] conjI)
    with 1 2 show "t \<noteq> hidden_marker \<and>
        py_int (filter (\<lambda>c. c \<noteq> CHR '','') t) = Inr n \<and>
        (\<exists>body. t = (if n < 0 then ''-'' else []) @ body \<and>
           (\<forall>c \<in> set body. is_digit c \<or> c = CHR '','') \<and>
           is_digit (hd body) \<and>
           (n \<noteq> 0 \<longrightarrow> hd body \<noteq> CHR ''0'') \<and>
           (n = 0 \<longrightarrow> body = ''0'') \<and>
           (\<forall>i < length body. (rev body ! i = CHR '','') = (i mod 4 = 3)))"
      by (intro conjI)
  qed
  from h v s show ?thesis by (intro conjI)
qed

theorem C4_hidden_marker_or_grouped_count_witness:
  "hidden_subscriber_count (rec (sample_row True 1234567)) \<and>
   subscriber_count (rec (sample_row True 1234567)) = 1234567 \<and>
   subscribers_text (add_display_columns (\<lambda>t. ''2023-11-14 22:13'') (sample_row True 1234567))
     = hidden_marker \<and>
   \<not> hidden_subscriber_count (rec (sample_row False 1234567)) \<and>
   subscribers_text (add_display_columns (\<lambda>t. ''2023-11-14 22:13'') (sample_row False 1234567))
     = ''1,234,567'' \<and>
   py_int ''1234567'' = Inr 1234567 \<and>
   rev ''1,234,567'' ! 3 = CHR '','' \<and> rev ''1,234,567'' ! 7 = CHR '','' \<and>
   rev ''1,234,567'' ! 4 \<noteq> CHR '',''"
proof -
  let ?f = "\<lambda>t::int. ''2023-11-14 22:13''"
  have a: "hidden_subscriber_count (rec (sample_row True 1234567))"
    and b: "\<not> hidden_subscriber_count (rec (sample_row False 1234567))"
    and c: "subscriber_count (rec (sample_row True 1234567)) = 1234567"
    and d: "subscriber_count (rec (sample_row False 1234567)) = 1234567"
    by (simp_all add: sample_row_def)
  have e: "subscribers_text (add_display_columns ?f (sample_row False 1234567)) = ''1,234,567''"
    by (simp add: add_display_columns_def subscribers_cell_def sample_row_def
          format_comma_examples)
  from C4_hidden_marker_or_grouped_count
         [where strftime = ?f and x = "sample_row True 1234567", OF refl refl] a
  have 1: "subscribers_text (add_display_columns ?f (sample_row True 1234567)) = hidden_marker"
    by blast
  note t = C4_hidden_marker_or_grouped_count[OF e[symmetric] d[symmetric]]
  from t b have 2: "py_int (filter (\<lambda>c. c \<noteq> CHR '','') ''1,234,567'') = Inr 1234567"
    by blast
  then have 3: "py_int ''1234567'' = Inr 1234567" by simp
  from t b obtain body where
    "''1,234,567'' = (if (1234567::int) < 0 then ''-'' else []) @ body"
    "\<forall>i < length body. (rev body ! i = CHR '','') = (i mod 4 = 3)"
    by blast
  then have p: "\<forall>i < length ''1,234,567''.
      (rev ''1,234,567'' ! i = CHR '','') = (i mod 4 = 3)"
    by simp
  from spec[OF p, of 3] have 4: "rev ''1,234,567'' ! 3 = CHR '',''" by simp
  from spec[OF p, of 7] have 5: "rev ''1,234,567'' ! 7 = CHR '',''" by simp
  from spec[OF p, of 4] have 6: "rev ''1,234,567'' ! 4 \<noteq> CHR '',''" by simp
  from a c 1 b e 3 4 5 6 show ?thesis by (intro conjI)
qed

section \<open>The script: a missing key\<close>

text \<open>
  Claim C9: with an empty credential \<open>get_youtube_service\<close> shows the warning and returns
  no handle without any call; and the script itself, when the key is empty, ends after one
  message with the list of calls unchanged.
\<close>

theorem C9_empty_key_no_network:
  "get_youtube_service bld [] s = (None, say Warning_enter_api_key s) \<and>
   calls (say Warning_enter_api_key s) = calls s \<and>
   (api_key w = [] \<longrightarrow>
      main fuel lib w s = Some (None, say Info_enter_key s) \<and>
      calls (say Info_enter_key s) = calls s)"
  by (simp add: get_youtube_service_def main_def say_def)

theorem C9_empty_key_no_network_witness:
  "api_key no_key = [] \<and>
   main 5 sample_library no_key io0 = Some (None, \<lparr>msgs = [Info_enter_key], calls = []\<rparr>)"
proof -
  have k: "api_key no_key = []" by (simp add: no_key_def)
  from C9_empty_key_no_network[of "lib_build sample_library" io0 no_key 5 sample_library] k
  show ?thesis by (simp add: say_def io0_def)
qed

end
